theory Spec2Isabelle
  imports Main
begin

section \<open>Key names of the converted bucket (s3.py, lines 39-44)\<close>

text \<open>
  Key names are byte strings. The two patterns of the source are compiled without flags,
  so \<^verbatim>\<open>\w\<close> is the ASCII class \<^verbatim>\<open>[a-zA-Z0-9_]\<close>, \<^verbatim>\<open>.\<close> is any character but
  the newline, and \<^verbatim>\<open>$\<close> holds at the end of the string and just before a newline that
  ends the string. Both patterns are applied with \<^verbatim>\<open>match\<close>: anchored at the start of
  the key, free at its end.
\<close>

definition newline :: char where
  "newline = CHR 0x0A"

definition is_word_char :: "char \<Rightarrow> bool" where
  "is_word_char c =
     (let n = (of_char c :: nat) in
        (48 \<le> n \<and> n \<le> 57) \<or> (65 \<le> n \<and> n \<le> 90) \<or> (97 \<le> n \<and> n \<le> 122) \<or> n = 95)"

definition is_id_char :: "char \<Rightarrow> bool" where
  "is_id_char c = (is_word_char c \<or> c = CHR ''-'')"

text \<open>
  \<^verbatim>\<open>re_video_key_name = re.compile(r"([\w-]+)\.(\w+)/")\<close>.
  The result holds group 1, group 2 and the whole matched text (\<^verbatim>\<open>group()\<close>).
  The first group is greedy; a shorter first group would be followed by a character of
  its own class, never by the dot, so the longest run is the only candidate. The same
  holds for the second group and the slash.
\<close>

definition re_video_key_name :: "string \<Rightarrow> (string \<times> string \<times> string) option" where
  "re_video_key_name s =
     (let g1 = takeWhile is_id_char s; r1 = dropWhile is_id_char s in
      if g1 = [] then None
      else (case r1 of
              [] \<Rightarrow> None
            | c # r2 \<Rightarrow>
                if c \<noteq> CHR ''.'' then None
                else (let g2 = takeWhile is_word_char r2; r3 = dropWhile is_word_char r2 in
                      if g2 = [] then None
                      else (case r3 of
                              [] \<Rightarrow> None
                            | d # r4 \<Rightarrow>
                                if d = CHR ''/'' then Some (g1, g2, g1 @ ''.'' @ g2 @ ''/'')
                                else None))))"

text \<open>
  \<^verbatim>\<open>re_legacy_video_key_name = re.compile(r"([\w-]+)/(.*)$")\<close>.
  The result holds group 1 and group 2. Group 2 is the longest run without a newline
  after the slash; the pattern matches when that run reaches the end of the key, or
  stops at a newline that is the key's last character (the newline is then outside
  group 2).
\<close>

definition re_legacy_video_key_name :: "string \<Rightarrow> (string \<times> string) option" where
  "re_legacy_video_key_name s =
     (let g1 = takeWhile is_id_char s; r1 = dropWhile is_id_char s in
      if g1 = [] then None
      else (case r1 of
              [] \<Rightarrow> None
            | c # r2 \<Rightarrow>
                if c \<noteq> CHR ''/'' then None
                else (let g2 = takeWhile (\<lambda>x. x \<noteq> newline) r2;
                          r3 = dropWhile (\<lambda>x. x \<noteq> newline) r2 in
                      if r3 = [] \<or> r3 = [newline] then Some (g1, g2) else None)))"

section \<open>Errors, log lines and the storage model\<close>

text \<open>
  Exceptions are values. \<open>AssertionError\<close> is a failed \<^verbatim>\<open>assert\<close>;
  \<open>AttributeError\<close> is \<^verbatim>\<open>video_match.group\<close> on a match that is \<^verbatim>\<open>None\<close>;
  \<open>GaveUpPublish\<close> is \<^verbatim>\<open>Exception("Gave up publish attempt due to server errors")\<close>
  of line 201; \<open>S3ResponseError\<close> is a copy whose source key does not exist;
  \<open>CollaboratorError\<close> is any exception of a collaborator (storage, catalog, HTTP
  transport) that the code does not catch.
\<close>

datatype exn =
    AssertionError
  | AttributeError
  | GaveUpPublish
  | S3ResponseError
  | CollaboratorError string

text \<open>One constructor for each \<^verbatim>\<open>logger\<close> call of the source, named by level and line.\<close>

datatype log_entry =
    Warning_unrecognized_key string
  | Info_legacy_ignored nat
  | Info_copying string string
  | Info_unrecognized_file string
  | Error_still_uploading string string int
  | Error_format_not_found string string
  | Debug_copying_file string
  | Error_upload_attempt nat string nat
  | Debug_waiting
  | Error_verified string string
  | Error_unable_to_verify string string
  | Error_verification_retry nat
  | Error_verification_final nat

text \<open>
  An object of a bucket has contents and access-control metadata; a key of a listing
  has, besides, its name and its modification date. The date is the value that
  \<^verbatim>\<open>datetime.strptime(key.last_modified, ...)\<close> yields, in microseconds (the
  resolution of \<^verbatim>\<open>datetime\<close>).
\<close>

record s3object =
  contents :: string
  acl :: string

record s3key = s3object +
  name :: string
  last_modified :: int

definition startswith :: "string \<Rightarrow> string \<Rightarrow> bool" where
  "startswith s p = (take (length p) s = p)"

section \<open>Format inventory (lines 76-99 and 111-119)\<close>

text \<open>
  \<^verbatim>\<open>defaultdict(set)\<close> is a map with a default: reading an absent key yields the empty
  set (\<open>dd_get\<close>) and stores it (\<open>dd_touch\<close>).
\<close>

definition dd_get :: "('k \<rightharpoonup> 'v set) \<Rightarrow> 'k \<Rightarrow> 'v set" where
  "dd_get m k = (case m k of None \<Rightarrow> {} | Some s \<Rightarrow> s)"

definition dd_touch :: "('k \<rightharpoonup> 'v set) \<Rightarrow> 'k \<Rightarrow> ('k \<rightharpoonup> 'v set)" where
  "dd_touch m k = (case m k of None \<Rightarrow> m(k \<mapsto> {}) | Some s \<Rightarrow> m)"

record inventory =
  converted_videos :: "string \<rightharpoonup> string set"
  legacy_video_keys :: "string set"
  inventory_log :: "log_entry list"

text \<open>The loop of \<^verbatim>\<open>list_converted_formats\<close> over the names of the listing.\<close>

fun list_converted_formats_loop :: "string list \<Rightarrow> inventory \<Rightarrow> inventory" where
  "list_converted_formats_loop [] acc = acc"
| "list_converted_formats_loop (key_name # keys) acc =
     (case re_video_key_name key_name of
        None \<Rightarrow>
          (case re_legacy_video_key_name key_name of
             Some legacy_match \<Rightarrow>
               list_converted_formats_loop keys
                 (acc\<lparr>legacy_video_keys := insert key_name (legacy_video_keys acc)\<rparr>)
           | None \<Rightarrow>
               list_converted_formats_loop keys
                 (acc\<lparr>inventory_log := inventory_log acc @ [Warning_unrecognized_key key_name]\<rparr>))
      | Some (g1, g2, g0) \<Rightarrow>
          list_converted_formats_loop keys
            (acc\<lparr>converted_videos :=
                   (converted_videos acc)(g1 \<mapsto> insert g2 (dd_get (converted_videos acc) g1))\<rparr>))"

definition list_converted_formats_run :: "string list \<Rightarrow> inventory" where
  "list_converted_formats_run keys =
     (let acc = list_converted_formats_loop keys
                  \<lparr>converted_videos = Map.empty, legacy_video_keys = {}, inventory_log = []\<rparr>
      in acc\<lparr>inventory_log :=
               inventory_log acc @ [Info_legacy_ignored (card (legacy_video_keys acc))]\<rparr>)"

definition list_converted_formats :: "string list \<Rightarrow> (string \<rightharpoonup> string set)" where
  "list_converted_formats keys = converted_videos (list_converted_formats_run keys)"

text \<open>\<^verbatim>\<open>list_legacy_mp4_videos\<close>: group 1 of every name the legacy pattern matches.\<close>

fun list_legacy_mp4_videos_loop :: "string list \<Rightarrow> string set \<Rightarrow> string set" where
  "list_legacy_mp4_videos_loop [] legacy_mp4_videos = legacy_mp4_videos"
| "list_legacy_mp4_videos_loop (key_name # keys) legacy_mp4_videos =
     (case re_legacy_video_key_name key_name of
        Some (g1, g2) \<Rightarrow> list_legacy_mp4_videos_loop keys (insert g1 legacy_mp4_videos)
      | None \<Rightarrow> list_legacy_mp4_videos_loop keys legacy_mp4_videos)"

definition list_legacy_mp4_videos :: "string list \<Rightarrow> string set" where
  "list_legacy_mp4_videos keys = list_legacy_mp4_videos_loop keys {}"

text \<open>
  The catalog of \<^verbatim>\<open>api.get_library()\<close>: a list of playlists, each with its list
  \<^verbatim>\<open>playlist["videos"]\<close>; a video is a dictionary, and \<^verbatim>\<open>"youtube_id" in video\<close>
  is whether the key is bound. \<^verbatim>\<open>DOWNLOADABLE_FORMATS\<close> comes from a module that
  is not part of the source: it is a parameter.
\<close>

type_synonym video = "string \<rightharpoonup> string"

record playlist =
  videos :: "video list"

type_synonym missing_state = "(string \<rightharpoonup> string set) \<times> (string \<rightharpoonup> string set)"

fun missing_videos_loop :: "string set \<Rightarrow> video list \<Rightarrow> missing_state \<Rightarrow> missing_state" where
  "missing_videos_loop DOWNLOADABLE_FORMATS [] st = st"
| "missing_videos_loop DOWNLOADABLE_FORMATS (video # vs) (missing_converted_formats, converted_formats) =
     (case video ''youtube_id'' of
        None \<Rightarrow>
          missing_videos_loop DOWNLOADABLE_FORMATS vs (missing_converted_formats, converted_formats)
      | Some youtube_id \<Rightarrow>
          missing_videos_loop DOWNLOADABLE_FORMATS vs
            (missing_converted_formats
               (youtube_id \<mapsto> DOWNLOADABLE_FORMATS - dd_get converted_formats youtube_id),
             dd_touch converted_formats youtube_id))"

fun missing_playlists_loop :: "string set \<Rightarrow> playlist list \<Rightarrow> missing_state \<Rightarrow> missing_state" where
  "missing_playlists_loop DOWNLOADABLE_FORMATS [] st = st"
| "missing_playlists_loop DOWNLOADABLE_FORMATS (playlist # ps) st =
     missing_playlists_loop DOWNLOADABLE_FORMATS ps
       (missing_videos_loop DOWNLOADABLE_FORMATS (videos playlist) st)"

definition list_missing_converted_formats ::
    "string set \<Rightarrow> string list \<Rightarrow> playlist list \<Rightarrow> (string \<rightharpoonup> string set)" where
  "list_missing_converted_formats DOWNLOADABLE_FORMATS keys library =
     fst (missing_playlists_loop DOWNLOADABLE_FORMATS library
            (Map.empty, list_converted_formats keys))"

section \<open>Legacy migration (lines 101-109)\<close>

text \<open>
  The bucket is an association list from names to objects. \<open>bucket_list\<close> is
  \<^verbatim>\<open>converted_bucket.list(prefix=...)\<close>; \<open>key_copy\<close> is
  \<^verbatim>\<open>key.copy(converted_bucket.name, dest_key, preserve_acl=True)\<close>: the destination
  receives the source's contents and, as the flag asks, its access-control metadata;
  the source stays where it is. The destination names never start with the listed
  prefix, so the listing is taken once, before the loop.
\<close>

type_synonym bucket = "(string \<times> s3object) list"

fun bucket_put :: "string \<Rightarrow> s3object \<Rightarrow> bucket \<Rightarrow> bucket" where
  "bucket_put k v [] = [(k, v)]"
| "bucket_put k v (p # ps) = (if fst p = k then (k, v) # ps else p # bucket_put k v ps)"

definition bucket_list :: "string \<Rightarrow> bucket \<Rightarrow> string list" where
  "bucket_list prefix b = filter (\<lambda>n. startswith n prefix) (map fst b)"

definition key_copy :: "string \<Rightarrow> string \<Rightarrow> bucket \<Rightarrow> exn + bucket" where
  "key_copy src dest_key b =
     (case map_of b src of
        None \<Rightarrow> Inl S3ResponseError
      | Some obj \<Rightarrow> Inr (bucket_put dest_key obj b))"

record migration =
  converted_bucket :: bucket
  migration_log :: "log_entry list"

fun copy_legacy_loop :: "string \<Rightarrow> string list \<Rightarrow> migration \<Rightarrow> (exn + unit) \<times> migration" where
  "copy_legacy_loop youtube_id [] m = (Inr (), m)"
| "copy_legacy_loop youtube_id (key_name # keys) m =
     (case re_legacy_video_key_name key_name of
        None \<Rightarrow> (Inl AssertionError, m)
      | Some (g1, g2) \<Rightarrow>
          if g1 \<noteq> youtube_id then (Inl AssertionError, m)
          else (let dest_key = youtube_id @ ''.mp4/'' @ g2;
                    m1 = m\<lparr>migration_log := migration_log m @ [Info_copying key_name dest_key]\<rparr>
                in case key_copy key_name dest_key (converted_bucket m1) of
                     Inl e \<Rightarrow> (Inl e, m1)
                   | Inr b \<Rightarrow> copy_legacy_loop youtube_id keys (m1\<lparr>converted_bucket := b\<rparr>)))"

definition copy_legacy_content_to_new_location ::
    "string \<Rightarrow> migration \<Rightarrow> (exn + unit) \<times> migration" where
  "copy_legacy_content_to_new_location youtube_id m =
     copy_legacy_loop youtube_id (bucket_list (youtube_id @ ''/'') (converted_bucket m)) m"


section \<open>Upload to the archive (lines 121-240)\<close>

subsection \<open>Collaborators and the state of the world\<close>

text \<open>
  What the collaborators answer is not decided by the program: it is given by an
  environment. \<open>utcnow\<close> is the clock, read once for each object that is checked;
  \<open>set_contents_from_file\<close> is the outcome of the n-th upload attempt of the run and
  \<open>urlopen\<close> the outcome of the n-th HEAD request, each indexed by the number of calls
  made before it. An upload attempt succeeds, raises \<^verbatim>\<open>BotoServerError\<close> (with status
  and reason) or raises something else; a HEAD request returns a response with a status
  code, raises \<^verbatim>\<open>urllib2.HTTPError\<close> (with its code) or raises something else.
  \<open>nfkd\<close> is \<^verbatim>\<open>unicodedata.normalize("NFKD", _)\<close>, a library function.
\<close>

datatype put_result = PutOk | BotoServerError nat string | PutRaises string

datatype head_result = Response nat | HTTPError nat | HeadRaises string

record env =
  converted_keys :: "s3key list"
  utcnow :: "nat \<Rightarrow> int"
  video_metadata :: "string \<Rightarrow> exn + (string option \<times> string option)"
  nfkd :: "string \<Rightarrow> string"
  get_file :: "string \<Rightarrow> exn option"
  set_contents_from_file :: "nat \<Rightarrow> put_result"
  urlopen :: "nat \<Rightarrow> head_result"

text \<open>
  The trace records, in order, every call to a collaborator, every sleep, every log line
  and every call of \<^verbatim>\<open>verify_archive_upload\<close>. The archive maps a bucket name and an
  object name to the contents and headers stored by a successful upload.
\<close>

datatype event =
    Log log_entry
  | Get_file string
  | Set_contents string string nat
  | Sleep nat
  | Urlopen_head string
  | Verify string string

type_synonym headers = "(string \<times> string) list"

record world =
  clock_reads :: nat
  put_calls :: nat
  head_calls :: nat
  archive :: "string \<times> string \<rightharpoonup> string \<times> headers"
  trace :: "event list"

definition emit :: "event \<Rightarrow> world \<Rightarrow> world" where
  "emit e w = w\<lparr>trace := trace w @ [e]\<rparr>"

definition logger :: "log_entry \<Rightarrow> world \<Rightarrow> world" where
  "logger l w = emit (Log l) w"

text \<open>A loop body either goes on, returns from the function, or raises.\<close>

datatype 'a flow = Next 'a | Return bool | Raise exn

subsection \<open>Readiness (lines 141-144)\<close>

definition timedelta_hours :: "int \<Rightarrow> int" where
  "timedelta_hours h = h * 3600000000"

text \<open>
  The object is held back when
  \<^verbatim>\<open>datetime.utcnow() - modification_date < timedelta(hours=1)\<close>.
\<close>

definition is_ready :: "int \<Rightarrow> int \<Rightarrow> bool" where
  "is_ready now modification_date = (\<not> (now - modification_date < timedelta_hours 1))"

subsection \<open>Discovery and readiness check (lines 130-147)\<close>

definition key_list :: "string \<Rightarrow> s3key list \<Rightarrow> s3key list" where
  "key_list prefix keys = filter (\<lambda>key. startswith (name key) prefix) keys"

fun source_keys_loop ::
    "env \<Rightarrow> string \<Rightarrow> s3key list \<Rightarrow> (string \<Rightarrow> s3key list) \<Rightarrow> world
       \<Rightarrow> (string \<Rightarrow> s3key list) flow \<times> world" where
  "source_keys_loop env youtube_id [] source_keys_for_format w = (Next source_keys_for_format, w)"
| "source_keys_loop env youtube_id (key # keys) source_keys_for_format w =
     (case re_video_key_name (name key) of
        None \<Rightarrow>
          (case re_legacy_video_key_name (name key) of
             None \<Rightarrow>
               source_keys_loop env youtube_id keys source_keys_for_format
                 (logger (Info_unrecognized_file (name key)) w)
           | Some legacy_match \<Rightarrow>
               source_keys_loop env youtube_id keys source_keys_for_format w)
      | Some (g1, format, g0) \<Rightarrow>
          if g1 \<noteq> youtube_id then (Raise AssertionError, w)
          else (let modification_date = last_modified key;
                    now = utcnow env (clock_reads w);
                    w1 = w\<lparr>clock_reads := Suc (clock_reads w)\<rparr>
                in if \<not> is_ready now modification_date
                   then (Return False,
                         logger (Error_still_uploading format youtube_id modification_date) w1)
                   else source_keys_loop env youtube_id keys
                          (source_keys_for_format
                             (format := source_keys_for_format format @ [key]))
                          w1))"

subsection \<open>Requested formats must be present (lines 149-152)\<close>

fun formats_present_loop ::
    "string \<Rightarrow> string list \<Rightarrow> (string \<Rightarrow> s3key list) \<Rightarrow> world \<Rightarrow> unit flow \<times> world" where
  "formats_present_loop youtube_id [] source_keys_for_format w = (Next (), w)"
| "formats_present_loop youtube_id (format # formats) source_keys_for_format w =
     (if length (source_keys_for_format format) = 0
      then (Return False, logger (Error_format_not_found format youtube_id) w)
      else formats_present_loop youtube_id formats source_keys_for_format w)"

subsection \<open>Headers (lines 157-159 and 185-193)\<close>

definition normalize_for_header :: "(string \<Rightarrow> string) \<Rightarrow> string option \<Rightarrow> string" where
  "normalize_for_header normalize_nfkd s =
     filter (\<lambda>c. c \<noteq> newline)
       (filter (\<lambda>c. (of_char c :: nat) < 128)
          (normalize_nfkd (case s of None \<Rightarrow> [] | Some u \<Rightarrow> u)))"

definition archive_headers :: "(string \<Rightarrow> string) \<Rightarrow> string option \<times> string option \<Rightarrow> headers" where
  "archive_headers normalize_nfkd metadata =
     [(''x-archive-auto-make-bucket'', ''1''),
      (''x-archive-meta-collection'', ''khanacademy''),
      (''x-archive-meta-title'', normalize_for_header normalize_nfkd (fst metadata)),
      (''x-archive-meta-description'', normalize_for_header normalize_nfkd (snd metadata)),
      (''x-archive-meta-mediatype'', ''movies''),
      (''x-archive-meta01-subject'', ''Salman Khan''),
      (''x-archive-meta02-subject'', ''Khan Academy'')]"

subsection \<open>Transfer of one object (lines 165-204)\<close>

text \<open>
  Lines 165-171: the key is matched again, the assertions are checked in the order of
  the source, and the destination name is the key without the matched prefix,
  \<^verbatim>\<open>key.name[len(video_prefix):]\<close>.
\<close>

definition destination_name_of :: "string \<Rightarrow> string \<Rightarrow> string \<Rightarrow> exn + string" where
  "destination_name_of youtube_id format key_name =
     (case re_video_key_name key_name of
        None \<Rightarrow> Inl AttributeError
      | Some (g1, g2, video_prefix) \<Rightarrow>
          if g1 \<noteq> youtube_id then Inl AssertionError
          else if g2 \<noteq> format then Inl AssertionError
          else if \<not> startswith key_name video_prefix then Inl AssertionError
          else (let destination_name = drop (length video_prefix) key_name
                in if CHR ''/'' \<in> set destination_name then Inl AssertionError
                   else Inr destination_name))"

text \<open>
  Lines 194-201, \<^verbatim>\<open>for attempt in xrange(10): try ... break / except BotoServerError
  ... else: raise\<close>. The list holds the attempt numbers still to run; when it is
  exhausted the \<^verbatim>\<open>else\<close> branch raises.
\<close>

fun set_contents_attempts ::
    "env \<Rightarrow> string \<Rightarrow> string \<Rightarrow> string \<Rightarrow> headers \<Rightarrow> nat list \<Rightarrow> world
       \<Rightarrow> (exn + unit) \<times> world" where
  "set_contents_attempts env dest_bucket destination_name t hdrs [] w = (Inl GaveUpPublish, w)"
| "set_contents_attempts env dest_bucket destination_name t hdrs (attempt # attempts) w =
     (let w1 = emit (Set_contents dest_bucket destination_name attempt)
                 (w\<lparr>put_calls := Suc (put_calls w)\<rparr>)
      in case set_contents_from_file env (put_calls w) of
           PutOk \<Rightarrow>
             (Inr (), w1\<lparr>archive := (archive w1)((dest_bucket, destination_name) \<mapsto> (t, hdrs))\<rparr>)
         | BotoServerError status reason \<Rightarrow>
             set_contents_attempts env dest_bucket destination_name t hdrs attempts
               (logger (Error_upload_attempt status reason attempt) w1)
         | PutRaises e \<Rightarrow> (Inl (CollaboratorError e), w1))"

definition upload_key ::
    "env \<Rightarrow> string \<Rightarrow> string \<Rightarrow> headers \<Rightarrow> string \<Rightarrow> s3key \<Rightarrow> string list \<Rightarrow> world
       \<Rightarrow> (exn + string list) \<times> world" where
  "upload_key env youtube_id dest_bucket hdrs format key uploaded_filenames w =
     (case destination_name_of youtube_id format (name key) of
        Inl e \<Rightarrow> (Inl e, w)
      | Inr destination_name \<Rightarrow>
          (let w1 = logger (Debug_copying_file destination_name) w;
               w2 = emit (Get_file (name key)) w1
           in case get_file env (name key) of
                Some e \<Rightarrow> (Inl e, w2)
              | None \<Rightarrow>
                  (case set_contents_attempts env dest_bucket destination_name (contents key)
                          hdrs [0..<10] w2 of
                     (Inl e, w3) \<Rightarrow> (Inl e, w3)
                   | (Inr u, w3) \<Rightarrow> (Inr (uploaded_filenames @ [destination_name]), w3))))"

fun upload_keys_loop ::
    "env \<Rightarrow> string \<Rightarrow> string \<Rightarrow> headers \<Rightarrow> string \<Rightarrow> s3key list \<Rightarrow> string list \<Rightarrow> world
       \<Rightarrow> (exn + string list) \<times> world" where
  "upload_keys_loop env youtube_id dest_bucket hdrs format [] uploaded_filenames w =
     (Inr uploaded_filenames, w)"
| "upload_keys_loop env youtube_id dest_bucket hdrs format (key # keys) uploaded_filenames w =
     (case upload_key env youtube_id dest_bucket hdrs format key uploaded_filenames w of
        (Inl e, w1) \<Rightarrow> (Inl e, w1)
      | (Inr uploaded, w1) \<Rightarrow>
          upload_keys_loop env youtube_id dest_bucket hdrs format keys uploaded w1)"

fun upload_formats_loop ::
    "env \<Rightarrow> string \<Rightarrow> string \<Rightarrow> headers \<Rightarrow> string list \<Rightarrow> (string \<Rightarrow> s3key list)
       \<Rightarrow> string list \<Rightarrow> world \<Rightarrow> (exn + string list) \<times> world" where
  "upload_formats_loop env youtube_id dest_bucket hdrs [] source_keys_for_format
       uploaded_filenames w = (Inr uploaded_filenames, w)"
| "upload_formats_loop env youtube_id dest_bucket hdrs (format # formats) source_keys_for_format
       uploaded_filenames w =
     (case upload_keys_loop env youtube_id dest_bucket hdrs format
             (source_keys_for_format format) uploaded_filenames w of
        (Inl e, w1) \<Rightarrow> (Inl e, w1)
      | (Inr uploaded, w1) \<Rightarrow>
          upload_formats_loop env youtube_id dest_bucket hdrs formats source_keys_for_format
            uploaded w1)"

subsection \<open>Verification (lines 206-240)\<close>

definition c_retries_allowed :: nat where
  "c_retries_allowed = 5"

definition archive_url :: "string \<Rightarrow> string \<Rightarrow> string" where
  "archive_url youtube_id filename =
     ''http://s3.us.archive.org/KA-converted-'' @ youtube_id @ ''/'' @ filename"

function verify_loop ::
    "env \<Rightarrow> string \<Rightarrow> string \<Rightarrow> nat \<Rightarrow> world \<Rightarrow> (exn + bool) \<times> world" where
  "verify_loop env youtube_id filename c_retries w =
     (if c_retries < c_retries_allowed then
        (let w1 = emit (Urlopen_head (archive_url youtube_id filename))
                    (w\<lparr>head_calls := Suc (head_calls w)\<rparr>)
         in case urlopen env (head_calls w) of
              Response code \<Rightarrow> (Inr (code = 200), w1)
            | HTTPError e \<Rightarrow>
                (let c_retries1 = c_retries + 1;
                     w2 = (if c_retries1 < c_retries_allowed
                           then logger (Error_verification_retry c_retries1) w1
                           else logger (Error_verification_final e) w1);
                     w3 = emit (Sleep 10) w2
                 in verify_loop env youtube_id filename c_retries1 w3)
            | HeadRaises e \<Rightarrow> (Inl (CollaboratorError e), w1))
      else (Inr False, w))"
  by pat_completeness auto
termination
  by (relation "measure (\<lambda>(env, youtube_id, filename, c_retries, w). c_retries_allowed - c_retries)")
     auto

declare verify_loop.simps [simp del]

definition verify_archive_upload ::
    "env \<Rightarrow> string \<Rightarrow> string \<Rightarrow> world \<Rightarrow> (exn + bool) \<times> world" where
  "verify_archive_upload env youtube_id filename w = verify_loop env youtube_id filename 0 w"

fun verify_uploads_loop ::
    "env \<Rightarrow> string \<Rightarrow> string list \<Rightarrow> world \<Rightarrow> (exn + bool) \<times> world" where
  "verify_uploads_loop env youtube_id [] w = (Inr True, w)"
| "verify_uploads_loop env youtube_id (destination_name # rest) w =
     (case verify_archive_upload env youtube_id destination_name
             (emit (Verify youtube_id destination_name) w) of
        (Inl e, w1) \<Rightarrow> (Inl e, w1)
      | (Inr verified, w1) \<Rightarrow>
          if verified
          then verify_uploads_loop env youtube_id rest
                 (logger (Error_verified youtube_id destination_name) w1)
          else (Inr False, logger (Error_unable_to_verify youtube_id destination_name) w1))"

text \<open>Lines 206-216: the wait for propagation, then the verification of every upload.\<close>

definition wait_and_verify ::
    "env \<Rightarrow> string \<Rightarrow> string list \<Rightarrow> world \<Rightarrow> (exn + bool) \<times> world" where
  "wait_and_verify env youtube_id uploaded_filenames w =
     verify_uploads_loop env youtube_id uploaded_filenames
       (emit (Sleep 10) (logger Debug_waiting w))"

subsection \<open>The whole function\<close>

definition upload_converted_to_archive ::
    "env \<Rightarrow> string \<Rightarrow> string list \<Rightarrow> world \<Rightarrow> (exn + bool) \<times> world" where
  "upload_converted_to_archive env youtube_id formats_to_upload w =
     (let dest_bucket = ''KA-converted-'' @ youtube_id in
      case source_keys_loop env youtube_id (key_list youtube_id (converted_keys env))
             (\<lambda>format. []) w of
        (Raise e, w1) \<Rightarrow> (Inl e, w1)
      | (Return b, w1) \<Rightarrow> (Inr b, w1)
      | (Next source_keys_for_format, w1) \<Rightarrow>
          (case formats_present_loop youtube_id formats_to_upload source_keys_for_format w1 of
             (Raise e, w2) \<Rightarrow> (Inl e, w2)
           | (Return b, w2) \<Rightarrow> (Inr b, w2)
           | (Next u, w2) \<Rightarrow>
               (case video_metadata env youtube_id of
                  Inl e \<Rightarrow> (Inl e, w2)
                | Inr metadata \<Rightarrow>
                    (case upload_formats_loop env youtube_id dest_bucket
                            (archive_headers (nfkd env) metadata) formats_to_upload
                            source_keys_for_format [] w2 of
                       (Inl e, w3) \<Rightarrow> (Inl e, w3)
                     | (Inr uploaded_filenames, w3) \<Rightarrow>
                         wait_and_verify env youtube_id uploaded_filenames w3))))"


subsection \<open>Inputs for the examples\<close>

text \<open>
  An empty world, and an environment with a clock that stands two hours after the epoch,
  no title or description, and no failure of the fetches; the listing and the outcomes of
  the upload attempts and of the HEAD requests are left open.
\<close>

abbreviation world0 :: world where
  "world0 \<equiv> \<lparr>clock_reads = 0, put_calls = 0, head_calls = 0, archive = Map.empty, trace = []\<rparr>"

abbreviation example_env :: "s3key list \<Rightarrow> (nat \<Rightarrow> put_result) \<Rightarrow> (nat \<Rightarrow> head_result) \<Rightarrow> env" where
  "example_env keys puts heads \<equiv>
     \<lparr>converted_keys = keys, utcnow = (\<lambda>n. timedelta_hours 2),
      video_metadata = (\<lambda>y. Inr (None, None)), nfkd = (\<lambda>s. s), get_file = (\<lambda>n. None),
      set_contents_from_file = puts, urlopen = heads\<rparr>"

abbreviation example_key :: "string \<Rightarrow> int \<Rightarrow> s3key" where
  "example_key n t \<equiv> \<lparr>contents = ''data'', acl = ''public'', name = n, last_modified = t\<rparr>"

section \<open>Properties of the key patterns\<close>

lemma is_id_char_specials:
  "\<not> is_id_char CHR ''.''" "\<not> is_id_char CHR ''/''" "\<not> is_word_char CHR ''/''"
  by (simp_all add: is_id_char_def is_word_char_def)

lemma re_video_key_name_wf:
  assumes "vid \<noteq> []" "\<forall>c\<in>set vid. is_id_char c" "fmt \<noteq> []" "\<forall>c\<in>set fmt. is_word_char c"
  shows "re_video_key_name (vid @ ''.'' @ fmt @ ''/'' @ path) = Some (vid, fmt, vid @ ''.'' @ fmt @ ''/'')"
proof -
  have t1: "takeWhile is_id_char (vid @ ''.'' @ fmt @ ''/'' @ path) = vid"
    using assms(2) by (simp add: takeWhile_append2 is_id_char_specials)
  have d1: "dropWhile is_id_char (vid @ ''.'' @ fmt @ ''/'' @ path) = ''.'' @ fmt @ ''/'' @ path"
    using assms(2) by (simp add: is_id_char_specials)
  have t2: "takeWhile is_word_char (fmt @ ''/'' @ path) = fmt"
    using assms(4) by (simp add: takeWhile_append2 is_id_char_specials)
  have d2: "dropWhile is_word_char (fmt @ ''/'' @ path) = ''/'' @ path"
    using assms(4) by (simp add: is_id_char_specials)
  show ?thesis
    unfolding re_video_key_name_def Let_def t1 d1 using assms(1,3) t2 d2 by simp
qed

lemma re_video_key_name_SomeD:
  assumes "re_video_key_name s = Some (g1, g2, g0)"
  shows "g1 \<noteq> [] \<and> (\<forall>c\<in>set g1. is_id_char c) \<and> g2 \<noteq> [] \<and> (\<forall>c\<in>set g2. is_word_char c)
         \<and> g0 = g1 @ ''.'' @ g2 @ ''/'' \<and> s = g0 @ drop (length g0) s"
proof -
  let ?r1 = "dropWhile is_id_char s"
  from assms obtain r2 where r1: "?r1 = CHR ''.'' # r2" and g1: "g1 = takeWhile is_id_char s" "g1 \<noteq> []"
    by (auto simp: re_video_key_name_def Let_def split: list.splits if_splits)
  let ?r3 = "dropWhile is_word_char r2"
  from assms r1 obtain r4 where r3: "?r3 = CHR ''/'' # r4" and g2: "g2 = takeWhile is_word_char r2" "g2 \<noteq> []"
    and g0: "g0 = g1 @ ''.'' @ g2 @ ''/''"
    by (auto simp: re_video_key_name_def Let_def split: list.splits if_splits)
  have "s = takeWhile is_id_char s @ ?r1" by simp
  also have "\<dots> = g1 @ CHR ''.'' # (takeWhile is_word_char r2 @ ?r3)" using r1 g1 by simp
  also have "\<dots> = g1 @ ''.'' @ g2 @ ''/'' @ r4" using r3 g2 by simp
  finally have s: "s = g0 @ r4" using g0 by simp
  have "drop (length g0) s = r4" by (subst s) simp
  with s have "s = g0 @ drop (length g0) s" by simp
  moreover have "\<forall>c\<in>set g1. is_id_char c" using g1 by (auto dest: set_takeWhileD)
  moreover have "\<forall>c\<in>set g2. is_word_char c" using g2 by (auto dest: set_takeWhileD)
  ultimately show ?thesis using g1 g2 g0 by simp
qed

lemma re_video_first_stop:
  "re_video_key_name s = Some m \<Longrightarrow> \<exists>r. dropWhile is_id_char s = CHR ''.'' # r"
  by (auto simp: re_video_key_name_def Let_def split: list.splits if_splits)

lemma re_legacy_first_stop:
  "re_legacy_video_key_name s = Some m \<Longrightarrow> \<exists>r. dropWhile is_id_char s = CHR ''/'' # r"
  by (auto simp: re_legacy_video_key_name_def Let_def split: list.splits if_splits)

lemma patterns_disjoint: "re_video_key_name s = None \<or> re_legacy_video_key_name s = None"
proof (rule ccontr)
  assume "\<not> ?thesis"
  then obtain m m' where "re_video_key_name s = Some m" "re_legacy_video_key_name s = Some m'" by auto
  then show False using re_video_first_stop re_legacy_first_stop by fastforce
qed

lemma list_legacy_loop_set:
  "list_legacy_mp4_videos_loop keys acc =
     acc \<union> {g1. \<exists>k\<in>set keys. \<exists>g2. re_legacy_video_key_name k = Some (g1, g2)}"
  by (induction keys arbitrary: acc) (auto split: option.splits)

text \<open>
  Claim C6. A well-formed current-style key \<^verbatim>\<open><id>.<fmt>/<path>\<close> (a non-empty id of
  characters \<^verbatim>\<open>[\w-]\<close>, a non-empty format of characters \<^verbatim>\<open>\w\<close>, any path) is
  matched with group 1 the id, group 2 the format and the matched prefix
  \<^verbatim>\<open><id>.<fmt>/\<close>, so that the remainder the code slices off is the path; when the path
  has no slash, the destination name computed at lines 165-171 is the path. Conversely,
  for every key the pattern matches, putting the recovered triple together again gives
  the key.
\<close>

theorem video_key_round_trip:
  "(vid \<noteq> [] \<and> (\<forall>c\<in>set vid. is_id_char c) \<and> fmt \<noteq> [] \<and> (\<forall>c\<in>set fmt. is_word_char c) \<longrightarrow>
      re_video_key_name (vid @ ''.'' @ fmt @ ''/'' @ path) = Some (vid, fmt, vid @ ''.'' @ fmt @ ''/'') \<and>
      drop (length (vid @ ''.'' @ fmt @ ''/'')) (vid @ ''.'' @ fmt @ ''/'' @ path) = path \<and>
      (CHR ''/'' \<notin> set path \<longrightarrow>
         destination_name_of vid fmt (vid @ ''.'' @ fmt @ ''/'' @ path) = Inr path)) \<and>
   (re_video_key_name key_name = Some (g1, g2, video_prefix) \<longrightarrow>
      g1 @ ''.'' @ g2 @ ''/'' @ drop (length video_prefix) key_name = key_name)"
proof (intro conjI impI)
  assume wf: "vid \<noteq> [] \<and> (\<forall>c\<in>set vid. is_id_char c) \<and> fmt \<noteq> [] \<and> (\<forall>c\<in>set fmt. is_word_char c)"
  then show m: "re_video_key_name (vid @ ''.'' @ fmt @ ''/'' @ path) = Some (vid, fmt, vid @ ''.'' @ fmt @ ''/'')"
    using re_video_key_name_wf[of vid fmt path] by simp
  show "drop (length (vid @ ''.'' @ fmt @ ''/'')) (vid @ ''.'' @ fmt @ ''/'' @ path) = path"
    by simp
  assume "CHR ''/'' \<notin> set path"
  then show "destination_name_of vid fmt (vid @ ''.'' @ fmt @ ''/'' @ path) = Inr path"
    using m by (simp add: destination_name_of_def startswith_def)
next
  assume "re_video_key_name key_name = Some (g1, g2, video_prefix)"
  from re_video_key_name_SomeD[OF this]
  have a: "video_prefix = g1 @ ''.'' @ g2 @ ''/''"
    and b: "key_name = video_prefix @ drop (length video_prefix) key_name"
    by blast+
  have "(g1 @ ''.'' @ g2 @ ''/'') @ drop (length video_prefix) key_name = key_name"
    by (simp only: a[symmetric] b[symmetric])
  then show "g1 @ ''.'' @ g2 @ ''/'' @ drop (length video_prefix) key_name = key_name"
    by (simp only: append_assoc)
qed

theorem video_key_round_trip_witness:
  "re_video_key_name ''DK1lCc9b7bg.mp4/DK1lCc9b7bg.png'' = Some (''DK1lCc9b7bg'', ''mp4'', ''DK1lCc9b7bg.mp4/'') \<and>
   drop (length ''DK1lCc9b7bg.mp4/'') ''DK1lCc9b7bg.mp4/DK1lCc9b7bg.png'' = ''DK1lCc9b7bg.png'' \<and>
   destination_name_of ''DK1lCc9b7bg'' ''mp4'' ''DK1lCc9b7bg.mp4/DK1lCc9b7bg.png'' = Inr ''DK1lCc9b7bg.png'' \<and>
   ''DK1lCc9b7bg'' @ ''.'' @ ''mp4'' @ ''/'' @ drop (length ''DK1lCc9b7bg.mp4/'') ''DK1lCc9b7bg.mp4/DK1lCc9b7bg.png''
      = ''DK1lCc9b7bg.mp4/DK1lCc9b7bg.png''"
proof -
  have wf: "''DK1lCc9b7bg'' \<noteq> [] \<and> (\<forall>c\<in>set ''DK1lCc9b7bg''. is_id_char c) \<and>
            ''mp4'' \<noteq> [] \<and> (\<forall>c\<in>set ''mp4''. is_word_char c)"
    by (simp add: is_id_char_def is_word_char_def)
  have nos: "CHR ''/'' \<notin> set ''DK1lCc9b7bg.png''" by simp
  from video_key_round_trip [of "''DK1lCc9b7bg''" "''mp4''" "''DK1lCc9b7bg.png''"
        "''DK1lCc9b7bg.mp4/DK1lCc9b7bg.png''" "''DK1lCc9b7bg''" "''mp4''" "''DK1lCc9b7bg.mp4/''"] wf nos
  show ?thesis by simp
qed

text \<open>
  Claim C9. No key matches both the current pattern and the legacy pattern: after the
  run of id characters the first wants a dot and the second a slash. So the ids that
  \<^verbatim>\<open>list_legacy_mp4_videos\<close> returns are exactly group 1 of the keys that match the
  legacy pattern and do not match the current one, and removing every current-format key
  from the listing leaves its result unchanged.
\<close>

theorem legacy_and_current_exclusive:
  "(re_video_key_name key_name = None \<or> re_legacy_video_key_name key_name = None) \<and>
   list_legacy_mp4_videos keys =
     {g1. \<exists>k\<in>set keys. \<exists>g2. re_legacy_video_key_name k = Some (g1, g2) \<and> re_video_key_name k = None} \<and>
   list_legacy_mp4_videos keys =
     list_legacy_mp4_videos (filter (\<lambda>k. re_video_key_name k = None) keys)"
proof -
  have a: "re_video_key_name k = None" if "re_legacy_video_key_name k = Some m" for k m
    using patterns_disjoint[of k] that by auto
  have "list_legacy_mp4_videos keys =
     {g1. \<exists>k\<in>set keys. \<exists>g2. re_legacy_video_key_name k = Some (g1, g2) \<and> re_video_key_name k = None}"
    unfolding list_legacy_mp4_videos_def list_legacy_loop_set using a by auto
  moreover have "list_legacy_mp4_videos keys =
     list_legacy_mp4_videos (filter (\<lambda>k. re_video_key_name k = None) keys)"
    unfolding list_legacy_mp4_videos_def list_legacy_loop_set using a by auto
  ultimately show ?thesis using patterns_disjoint[of key_name] by simp
qed

section \<open>Properties of the readiness check\<close>

text \<open>
  Claim C4. An object modified at the current time is not ready; an object modified two
  hours before is ready; at exactly one hour the object is ready, whatever the current
  time is (one microsecond less than an hour and it is not).
\<close>

theorem is_ready_window:
  "\<not> is_ready now now \<and> is_ready now (now - timedelta_hours 2) \<and>
   is_ready now (now - timedelta_hours 1) \<and> \<not> is_ready now (now - timedelta_hours 1 + 1)"
  by (simp add: is_ready_def timedelta_hours_def)


section \<open>Properties of the format inventory\<close>

lemma dd_get_touch: "dd_get (dd_touch m k) k' = dd_get m k'"
  by (simp add: dd_get_def dd_touch_def split: option.splits)

lemma missing_videos_loop_lookup:
  "fst (missing_videos_loop D vs (ms, cf)) y =
     (if \<exists>v\<in>set vs. v ''youtube_id'' = Some y then Some (D - dd_get cf y) else ms y) \<and>
   dd_get (snd (missing_videos_loop D vs (ms, cf))) = dd_get cf"
proof (induction vs arbitrary: ms cf)
  case Nil
  show ?case by simp
next
  case (Cons v vs)
  show ?case
  proof (cases "v ''youtube_id''")
    case None
    then show ?thesis using Cons.IH[of ms cf] by simp
  next
    case (Some z)
    have touch: "dd_get (dd_touch cf z) = dd_get cf"
      by (rule ext) (simp add: dd_get_touch)
    obtain ms1 cf1 where st:
      "missing_videos_loop D vs (ms(z \<mapsto> D - dd_get cf z), dd_touch cf z) = (ms1, cf1)"
      by (cases "missing_videos_loop D vs (ms(z \<mapsto> D - dd_get cf z), dd_touch cf z)")
    from Cons.IH[of "ms(z \<mapsto> D - dd_get cf z)" "dd_touch cf z"] st
    have ms1: "ms1 y = (if \<exists>v\<in>set vs. v ''youtube_id'' = Some y then Some (D - dd_get cf y)
                        else (ms(z \<mapsto> D - dd_get cf z)) y)"
      and cf1: "dd_get cf1 = dd_get cf"
      by (simp_all only: fst_conv snd_conv touch)
    have step: "missing_videos_loop D (v # vs) (ms, cf) = (ms1, cf1)"
      using Some st by simp
    show ?thesis
      unfolding step fst_conv snd_conv using ms1 cf1 Some by auto
  qed
qed

lemma missing_playlists_loop_lookup:
  "fst (missing_playlists_loop D ps (ms, cf)) y =
     (if \<exists>p\<in>set ps. \<exists>v\<in>set (videos p). v ''youtube_id'' = Some y
      then Some (D - dd_get cf y) else ms y) \<and>
   dd_get (snd (missing_playlists_loop D ps (ms, cf))) = dd_get cf"
proof (induction ps arbitrary: ms cf)
  case Nil
  show ?case by simp
next
  case (Cons p ps)
  obtain ms1 cf1 where st: "missing_videos_loop D (videos p) (ms, cf) = (ms1, cf1)"
    by (cases "missing_videos_loop D (videos p) (ms, cf)")
  from missing_videos_loop_lookup[of D "videos p" ms cf y] st
  have ms1: "ms1 y = (if \<exists>v\<in>set (videos p). v ''youtube_id'' = Some y then Some (D - dd_get cf y) else ms y)"
    and cf1: "dd_get cf1 = dd_get cf"
    by simp_all
  show ?case
    using Cons.IH[of ms1 cf1] st ms1 cf1 by auto
qed

lemma list_missing_lookup:
  "list_missing_converted_formats D keys library y =
     (if \<exists>p\<in>set library. \<exists>v\<in>set (videos p). v ''youtube_id'' = Some y
      then Some (D - dd_get (list_converted_formats keys) y) else None)"
  unfolding list_missing_converted_formats_def
  using missing_playlists_loop_lookup[of D library Map.empty "list_converted_formats keys" y]
  by simp

text \<open>
  Claim C7. A video of the catalog whose id has no entry in the inventory mapping: the
  lookup \<^verbatim>\<open>converted_formats[video["youtube_id"]]\<close> yields the empty set (it cannot
  raise), and \<^verbatim>\<open>list_missing_converted_formats\<close> reports the whole required set as
  missing for that id.
\<close>

theorem absent_inventory_entry_is_empty:
  assumes "playlist \<in> set library" and "video \<in> set (videos playlist)"
    and "video ''youtube_id'' = Some youtube_id"
    and "list_converted_formats keys youtube_id = None"
  shows "dd_get (list_converted_formats keys) youtube_id = {} \<and>
         list_missing_converted_formats DOWNLOADABLE_FORMATS keys library youtube_id
           = Some DOWNLOADABLE_FORMATS"
proof -
  have e: "dd_get (list_converted_formats keys) youtube_id = {}"
    using assms(4) by (simp add: dd_get_def)
  have "\<exists>p\<in>set library. \<exists>v\<in>set (videos p). v ''youtube_id'' = Some youtube_id"
    using assms(1-3) by blast
  then show ?thesis using e by (simp add: list_missing_lookup)
qed

lemma inventory_example:
  "list_converted_formats [''xyz.mp4/'', ''old/x.mp4''] = [''xyz'' \<mapsto> {''mp4''}]"
  by (simp add: list_converted_formats_def list_converted_formats_run_def
        re_video_key_name_def re_legacy_video_key_name_def newline_def
        is_id_char_def is_word_char_def Let_def dd_get_def)

theorem absent_inventory_entry_is_empty_witness:
  "\<lparr>videos = [[''youtube_id'' \<mapsto> ''abc'']]\<rparr> \<in> set [\<lparr>videos = [[''youtube_id'' \<mapsto> ''abc'']]\<rparr>] \<and>
   [''youtube_id'' \<mapsto> ''abc''] \<in> set (videos \<lparr>videos = [[''youtube_id'' \<mapsto> ''abc'']]\<rparr>) \<and>
   [''youtube_id'' \<mapsto> ''abc''] ''youtube_id'' = Some ''abc'' \<and>
   list_converted_formats [''xyz.mp4/'', ''old/x.mp4''] ''abc'' = None \<and>
   dd_get (list_converted_formats [''xyz.mp4/'', ''old/x.mp4'']) ''abc'' = {} \<and>
   list_missing_converted_formats {''mp4'', ''m3u8''} [''xyz.mp4/'', ''old/x.mp4'']
     [\<lparr>videos = [[''youtube_id'' \<mapsto> ''abc'']]\<rparr>] ''abc'' = Some {''mp4'', ''m3u8''}"
proof -
  have h: "list_converted_formats [''xyz.mp4/'', ''old/x.mp4''] ''abc'' = None"
    by (simp add: inventory_example)
  from absent_inventory_entry_is_empty [of "\<lparr>videos = [[''youtube_id'' \<mapsto> ''abc'']]\<rparr>"
      "[\<lparr>videos = [[''youtube_id'' \<mapsto> ''abc'']]\<rparr>]" "[''youtube_id'' \<mapsto> ''abc'']" "''abc''"
      "[''xyz.mp4/'', ''old/x.mp4'']" "{''mp4'', ''m3u8''}"] h
  show ?thesis by simp
qed

text \<open>
  Claim C10. A video of the catalog without a \<^verbatim>\<open>youtube_id\<close> contributes nothing:
  dropping every such video from the catalog leaves the returned mapping unchanged, and
  the keys of the returned mapping are exactly the ids that videos of the catalog carry.
\<close>

theorem videos_without_youtube_id_are_skipped:
  "list_missing_converted_formats DOWNLOADABLE_FORMATS keys library =
     list_missing_converted_formats DOWNLOADABLE_FORMATS keys
       (map (\<lambda>playlist. playlist\<lparr>videos := filter (\<lambda>video. video ''youtube_id'' \<noteq> None)
                                               (videos playlist)\<rparr>) library) \<and>
   dom (list_missing_converted_formats DOWNLOADABLE_FORMATS keys library) =
     {youtube_id. \<exists>playlist\<in>set library. \<exists>video\<in>set (videos playlist).
                    video ''youtube_id'' = Some youtube_id}"
proof (intro conjI)
  show "list_missing_converted_formats DOWNLOADABLE_FORMATS keys library =
     list_missing_converted_formats DOWNLOADABLE_FORMATS keys
       (map (\<lambda>playlist. playlist\<lparr>videos := filter (\<lambda>video. video ''youtube_id'' \<noteq> None)
                                               (videos playlist)\<rparr>) library)"
    by (rule ext) (auto simp: list_missing_lookup)
  show "dom (list_missing_converted_formats DOWNLOADABLE_FORMATS keys library) =
     {youtube_id. \<exists>playlist\<in>set library. \<exists>video\<in>set (videos playlist).
                    video ''youtube_id'' = Some youtube_id}"
    by (auto simp: dom_def list_missing_lookup split: if_splits)
qed


section \<open>Properties of the legacy migration\<close>

lemma re_legacy_video_key_name_SomeD:
  assumes "re_legacy_video_key_name s = Some (g1, g2)"
  shows "g1 \<noteq> []" and "\<forall>c\<in>set g1. is_id_char c" and "newline \<notin> set g2"
    and "s = g1 @ ''/'' @ g2 \<or> s = g1 @ ''/'' @ g2 @ [newline]"
proof -
  let ?r1 = "dropWhile is_id_char s"
  from assms obtain r2 where r1: "?r1 = CHR ''/'' # r2"
    and g1: "g1 = takeWhile is_id_char s" "g1 \<noteq> []"
    by (auto simp: re_legacy_video_key_name_def Let_def split: list.splits if_splits)
  let ?r3 = "dropWhile (\<lambda>x. x \<noteq> newline) r2"
  from assms r1 have g2: "g2 = takeWhile (\<lambda>x. x \<noteq> newline) r2"
    and r3: "?r3 = [] \<or> ?r3 = [newline]"
    by (auto simp: re_legacy_video_key_name_def Let_def split: list.splits if_splits)
  show "g1 \<noteq> []" by (rule g1(2))
  show "\<forall>c\<in>set g1. is_id_char c" using g1(1) by (auto dest: set_takeWhileD)
  show "newline \<notin> set g2" using g2 by (auto dest: set_takeWhileD)
  have "s = takeWhile is_id_char s @ ?r1" by simp
  also have "\<dots> = g1 @ CHR ''/'' # (takeWhile (\<lambda>x. x \<noteq> newline) r2 @ ?r3)"
    using r1 g1 by simp
  finally have "s = g1 @ ''/'' @ g2 @ ?r3" using g2 by simp
  with r3 show "s = g1 @ ''/'' @ g2 \<or> s = g1 @ ''/'' @ g2 @ [newline]" by auto
qed

lemma re_legacy_group2_is_remainder:
  assumes "re_legacy_video_key_name s = Some (g1, g2)" and "newline \<notin> set s"
  shows "g2 = drop (length g1 + 1) s"
proof -
  from re_legacy_video_key_name_SomeD(4)[OF assms(1)] assms(2)
  have "s = g1 @ ''/'' @ g2" by auto
  then have "drop (length g1 + 1) s = drop (length g1 + 1) (g1 @ ''/'' @ g2)" by simp
  then show ?thesis by simp
qed

lemma re_legacy_key_rebuilt:
  assumes "re_legacy_video_key_name s = Some (g1, g2)" and "newline \<notin> set s"
  shows "s = g1 @ ''/'' @ g2"
  using re_legacy_video_key_name_SomeD(4)[OF assms(1)] assms(2) by auto

lemma new_name_outside_prefix:
  "\<not> startswith (youtube_id @ ''.mp4/'' @ g2) (youtube_id @ ''/'')"
  by (simp add: startswith_def)

lemma map_of_bucket_put: "map_of (bucket_put k v b) = (map_of b)(k \<mapsto> v)"
  by (induction b) (auto simp: fun_upd_twist)

lemma bucket_list_subset: "k \<in> set (bucket_list p b) \<Longrightarrow> map_of b k \<noteq> None"
  by (auto simp: bucket_list_def map_of_eq_None_iff)

lemma bucket_list_startswith: "k \<in> set (bucket_list p b) \<Longrightarrow> startswith k p"
  by (auto simp: bucket_list_def)

lemma copy_legacy_loop_result:
  assumes "\<forall>k\<in>set keys. map_of (converted_bucket m) k \<noteq> None"
  shows "fst (copy_legacy_loop y keys m) =
           (if \<forall>k\<in>set keys. \<exists>g2. re_legacy_video_key_name k = Some (y, g2)
            then Inr () else Inl AssertionError)"
  using assms
proof (induction keys arbitrary: m)
  case Nil
  show ?case by simp
next
  case (Cons k keys)
  show ?case
  proof (cases "re_legacy_video_key_name k")
    case None
    then show ?thesis by simp
  next
    case (Some p)
    obtain g1 g2 where p: "p = (g1, g2)" by (cases p)
    show ?thesis
    proof (cases "g1 = y")
      case False
      then show ?thesis using Some p by simp
    next
      case True
      from Cons.prems obtain obj where obj: "map_of (converted_bucket m) k = Some obj" by auto
      let ?d = "y @ ''.mp4/'' @ g2"
      let ?m1 = "m\<lparr>migration_log := migration_log m @ [Info_copying k ?d],
                    converted_bucket := bucket_put ?d obj (converted_bucket m)\<rparr>"
      have step: "copy_legacy_loop y (k # keys) m = copy_legacy_loop y keys ?m1"
        using Some p True obj by (simp add: key_copy_def Let_def)
      have pre: "\<forall>k\<in>set keys. map_of (converted_bucket ?m1) k \<noteq> None"
        using Cons.prems by (simp add: map_of_bucket_put)
      show ?thesis
        unfolding step Cons.IH[OF pre] using Some p True by simp
    qed
  qed
qed

lemma copy_legacy_loop_untouched:
  assumes "\<forall>k\<in>set keys. \<forall>g2. re_legacy_video_key_name k = Some (y, g2) \<longrightarrow> x \<noteq> y @ ''.mp4/'' @ g2"
  shows "map_of (converted_bucket (snd (copy_legacy_loop y keys m))) x = map_of (converted_bucket m) x"
  using assms
proof (induction keys arbitrary: m)
  case Nil
  show ?case by simp
next
  case (Cons k keys)
  show ?case
  proof (cases "re_legacy_video_key_name k")
    case None
    then show ?thesis by simp
  next
    case (Some p)
    obtain g1 g2 where p: "p = (g1, g2)" by (cases p)
    show ?thesis
    proof (cases "g1 = y")
      case False
      then show ?thesis using Some p by simp
    next
      case True
      let ?d = "y @ ''.mp4/'' @ g2"
      have xd: "x \<noteq> ?d" using Cons.prems Some p True by simp
      show ?thesis
      proof (cases "map_of (converted_bucket m) k")
        case None
        then show ?thesis using Some p True by (simp add: key_copy_def Let_def)
      next
        case (Some obj)
        let ?m1 = "m\<lparr>migration_log := migration_log m @ [Info_copying k ?d],
                    converted_bucket := bucket_put ?d obj (converted_bucket m)\<rparr>"
        have step: "copy_legacy_loop y (k # keys) m = copy_legacy_loop y keys ?m1"
          using \<open>re_legacy_video_key_name k = Some p\<close> p True Some by (simp add: key_copy_def Let_def)
        have pre: "\<forall>k\<in>set keys. \<forall>g2. re_legacy_video_key_name k = Some (y, g2) \<longrightarrow> x \<noteq> y @ ''.mp4/'' @ g2"
          using Cons.prems by simp
        show ?thesis
          unfolding step Cons.IH[OF pre] using xd by (simp add: map_of_bucket_put)
      qed
    qed
  qed
qed

lemma copy_legacy_loop_keeps:
  assumes "map_of (converted_bucket m) x \<noteq> None"
  shows "map_of (converted_bucket (snd (copy_legacy_loop y keys m))) x \<noteq> None"
  using assms
proof (induction keys arbitrary: m)
  case Nil
  then show ?case by simp
next
  case (Cons k keys)
  show ?case
  proof (cases "re_legacy_video_key_name k")
    case None
    then show ?thesis using Cons.prems by simp
  next
    case (Some p)
    obtain g1 g2 where p: "p = (g1, g2)" by (cases p)
    show ?thesis
    proof (cases "g1 = y")
      case False
      then show ?thesis using Some p Cons.prems by simp
    next
      case True
      let ?d = "y @ ''.mp4/'' @ g2"
      show ?thesis
      proof (cases "map_of (converted_bucket m) k")
        case None
        then show ?thesis using Some p True Cons.prems by (simp add: key_copy_def Let_def)
      next
        case (Some obj)
        let ?m1 = "m\<lparr>migration_log := migration_log m @ [Info_copying k ?d],
                    converted_bucket := bucket_put ?d obj (converted_bucket m)\<rparr>"
        have step: "copy_legacy_loop y (k # keys) m = copy_legacy_loop y keys ?m1"
          using \<open>re_legacy_video_key_name k = Some p\<close> p True Some by (simp add: key_copy_def Let_def)
        have pre: "map_of (converted_bucket ?m1) x \<noteq> None"
          using Cons.prems by (simp add: map_of_bucket_put)
        show ?thesis
          unfolding step by (rule Cons.IH[OF pre])
      qed
    qed
  qed
qed


lemma copy_legacy_loop_step:
  assumes "re_legacy_video_key_name k = Some (y, g2)" and "map_of (converted_bucket m) k = Some obj"
  shows "copy_legacy_loop y (k # keys) m =
           copy_legacy_loop y keys
             (m\<lparr>migration_log := migration_log m @ [Info_copying k (y @ ''.mp4/'' @ g2)],
                converted_bucket := bucket_put (y @ ''.mp4/'' @ g2) obj (converted_bucket m)\<rparr>)"
  using assms by (simp add: key_copy_def Let_def)

lemma copy_legacy_loop_head_ok:
  assumes "fst (copy_legacy_loop y (k # keys) m) = Inr ()"
  shows "\<exists>g2. re_legacy_video_key_name k = Some (y, g2)"
  using assms by (auto split: option.splits if_splits)

lemma copy_legacy_loop_log:
  assumes "\<forall>k\<in>set keys. map_of (converted_bucket m) k \<noteq> None"
    and "fst (copy_legacy_loop y keys m) = Inr ()"
  shows "\<exists>new. migration_log (snd (copy_legacy_loop y keys m)) = migration_log m @ new \<and>
           list_all2 (\<lambda>k l. \<exists>g2. re_legacy_video_key_name k = Some (y, g2) \<and>
                               l = Info_copying k (y @ ''.mp4/'' @ g2)) keys new"
  using assms
proof (induction keys arbitrary: m)
  case Nil
  show ?case by simp
next
  case (Cons k keys)
  from copy_legacy_loop_head_ok[OF Cons.prems(2)]
  obtain g2 where g2: "re_legacy_video_key_name k = Some (y, g2)" by blast
  from Cons.prems(1) obtain obj where obj: "map_of (converted_bucket m) k = Some obj" by auto
  let ?d = "y @ ''.mp4/'' @ g2"
  let ?m1 = "m\<lparr>migration_log := migration_log m @ [Info_copying k ?d],
                converted_bucket := bucket_put ?d obj (converted_bucket m)\<rparr>"
  note step = copy_legacy_loop_step[OF g2 obj, of keys]
  have pre: "\<forall>k\<in>set keys. map_of (converted_bucket ?m1) k \<noteq> None"
    using Cons.prems(1) by (simp add: map_of_bucket_put)
  have ok: "fst (copy_legacy_loop y keys ?m1) = Inr ()"
    using Cons.prems(2) unfolding step .
  from Cons.IH[OF pre ok] obtain new where
    new: "migration_log (snd (copy_legacy_loop y keys ?m1)) = migration_log ?m1 @ new"
      "list_all2 (\<lambda>k l. \<exists>g2. re_legacy_video_key_name k = Some (y, g2) \<and>
                               l = Info_copying k (y @ ''.mp4/'' @ g2)) keys new"
    by blast
  have "migration_log (snd (copy_legacy_loop y (k # keys) m)) =
          migration_log m @ (Info_copying k ?d # new)"
    unfolding step new(1) by simp
  moreover have "list_all2 (\<lambda>k l. \<exists>g2. re_legacy_video_key_name k = Some (y, g2) \<and>
                               l = Info_copying k (y @ ''.mp4/'' @ g2)) (k # keys) (Info_copying k ?d # new)"
    using new(2) g2 by simp
  ultimately show ?case by blast
qed

lemma copy_legacy_loop_copies:
  assumes "\<forall>k\<in>set keys. map_of (converted_bucket m) k \<noteq> None"
    and "\<forall>k\<in>set keys. startswith k (y @ ''/'')"
    and "fst (copy_legacy_loop y keys m) = Inr ()"
  shows "\<forall>k\<in>set keys. \<exists>g2 k'. re_legacy_video_key_name k = Some (y, g2) \<and> k' \<in> set keys \<and>
            re_legacy_video_key_name k' = Some (y, g2) \<and>
            map_of (converted_bucket (snd (copy_legacy_loop y keys m))) (y @ ''.mp4/'' @ g2)
              = map_of (converted_bucket m) k'"
  using assms
proof (induction keys arbitrary: m)
  case Nil
  show ?case by simp
next
  case (Cons k keys)
  from copy_legacy_loop_head_ok[OF Cons.prems(3)]
  obtain g2 where g2: "re_legacy_video_key_name k = Some (y, g2)" by blast
  from Cons.prems(1) obtain obj where obj: "map_of (converted_bucket m) k = Some obj" by auto
  let ?d = "y @ ''.mp4/'' @ g2"
  let ?m1 = "m\<lparr>migration_log := migration_log m @ [Info_copying k ?d],
                converted_bucket := bucket_put ?d obj (converted_bucket m)\<rparr>"
  let ?m' = "snd (copy_legacy_loop y keys ?m1)"
  note step = copy_legacy_loop_step[OF g2 obj, of keys]
  have pre1: "\<forall>k\<in>set keys. map_of (converted_bucket ?m1) k \<noteq> None"
    using Cons.prems(1) by (simp add: map_of_bucket_put)
  have pre2: "\<forall>k\<in>set keys. startswith k (y @ ''/'')" using Cons.prems(2) by simp
  have ok: "fst (copy_legacy_loop y keys ?m1) = Inr ()"
    using Cons.prems(3) unfolding step .
  note IH = Cons.IH[OF pre1 pre2 ok]
  have same: "map_of (converted_bucket ?m1) k' = map_of (converted_bucket m) k'"
    if "startswith k' (y @ ''/'')" for k'
  proof -
    have "k' \<noteq> ?d" using that new_name_outside_prefix[of y g2] by auto
    then show ?thesis by (simp add: map_of_bucket_put)
  qed
  have rest: "\<exists>g k'. re_legacy_video_key_name k2 = Some (y, g) \<and> k' \<in> set (k # keys) \<and>
            re_legacy_video_key_name k' = Some (y, g) \<and>
            map_of (converted_bucket ?m') (y @ ''.mp4/'' @ g) = map_of (converted_bucket m) k'"
    if "k2 \<in> set keys" for k2
  proof -
    from IH that obtain g k' where a: "re_legacy_video_key_name k2 = Some (y, g)" "k' \<in> set keys"
      "re_legacy_video_key_name k' = Some (y, g)"
      "map_of (converted_bucket ?m') (y @ ''.mp4/'' @ g) = map_of (converted_bucket ?m1) k'"
      by blast
    have "map_of (converted_bucket ?m1) k' = map_of (converted_bucket m) k'"
      using same pre2 a(2) by blast
    with a show ?thesis by auto
  qed
  have first: "\<exists>g k'. re_legacy_video_key_name k = Some (y, g) \<and> k' \<in> set (k # keys) \<and>
            re_legacy_video_key_name k' = Some (y, g) \<and>
            map_of (converted_bucket ?m') (y @ ''.mp4/'' @ g) = map_of (converted_bucket m) k'"
  proof (cases "\<exists>k2\<in>set keys. re_legacy_video_key_name k2 = Some (y, g2)")
    case True
    then obtain k2 where k2: "k2 \<in> set keys" "re_legacy_video_key_name k2 = Some (y, g2)" by blast
    from rest[OF k2(1)] k2(2) g2 show ?thesis by auto
  next
    case False
    then have "\<forall>k\<in>set keys. \<forall>g. re_legacy_video_key_name k = Some (y, g) \<longrightarrow> ?d \<noteq> y @ ''.mp4/'' @ g"
      by auto
    from copy_legacy_loop_untouched[OF this, of ?m1]
    have "map_of (converted_bucket ?m') ?d = Some obj" by (simp add: map_of_bucket_put)
    then show ?thesis using g2 obj by auto
  qed
  show ?case unfolding step using first rest by simp
qed

text \<open>
  Claim C8. \<^verbatim>\<open>copy_legacy_content_to_new_location\<close> runs over the keys under the prefix
  \<^verbatim>\<open><video_id>/\<close>. It succeeds exactly when every such key matches the legacy pattern
  with the given id as group 1, and raises \<^verbatim>\<open>AssertionError\<close> otherwise. Whatever the
  outcome, no object of the bucket disappears and every object under the prefix is left
  as it was: objects are copied, not moved. On success, one copy is logged for each key,
  in listing order, to \<^verbatim>\<open><video_id>.mp4/<path>\<close> where the path is group 2 of the
  legacy pattern, and the object then found under that name has the contents and the
  access-control metadata of a listed key with that path. Group 2 is the rest of the key
  after the prefix when the key holds no newline; when no listed key holds a newline,
  every listed key's object is found under \<^verbatim>\<open><video_id>.mp4/\<close> followed by the rest
  of its key.
\<close>

theorem copy_legacy_content_to_new_location_copies:
  assumes run: "copy_legacy_content_to_new_location youtube_id m = (r, m')"
    and keys: "keys = bucket_list (youtube_id @ ''/'') (converted_bucket m)"
  shows "r = (if \<forall>k\<in>set keys. \<exists>g2. re_legacy_video_key_name k = Some (youtube_id, g2)
              then Inr () else Inl AssertionError) \<and>
         (\<forall>x. map_of (converted_bucket m) x \<noteq> None \<longrightarrow> map_of (converted_bucket m') x \<noteq> None) \<and>
         (\<forall>x. startswith x (youtube_id @ ''/'') \<longrightarrow>
                map_of (converted_bucket m') x = map_of (converted_bucket m) x) \<and>
         (r = Inr () \<longrightarrow>
            (\<exists>new. migration_log m' = migration_log m @ new \<and>
               list_all2 (\<lambda>k l. \<exists>g2. re_legacy_video_key_name k = Some (youtube_id, g2) \<and>
                                   l = Info_copying k (youtube_id @ ''.mp4/'' @ g2)) keys new) \<and>
            (\<forall>k\<in>set keys. \<exists>g2 k'.
                re_legacy_video_key_name k = Some (youtube_id, g2) \<and>
                (newline \<notin> set k \<longrightarrow> g2 = drop (length youtube_id + 1) k) \<and>
                k' \<in> set keys \<and> re_legacy_video_key_name k' = Some (youtube_id, g2) \<and>
                map_of (converted_bucket m') (youtube_id @ ''.mp4/'' @ g2)
                  = map_of (converted_bucket m) k') \<and>
            ((\<forall>k\<in>set keys. newline \<notin> set k) \<longrightarrow>
               (\<forall>k\<in>set keys.
                  map_of (converted_bucket m') (youtube_id @ ''.mp4/'' @ drop (length youtube_id + 1) k)
                    = map_of (converted_bucket m) k)))"
proof -
  have r: "r = fst (copy_legacy_loop youtube_id keys m)"
    and m': "m' = snd (copy_legacy_loop youtube_id keys m)"
    using run keys by (simp_all add: copy_legacy_content_to_new_location_def)
  have pre1: "\<forall>k\<in>set keys. map_of (converted_bucket m) k \<noteq> None"
    unfolding keys by (blast dest: bucket_list_subset)
  have pre2: "\<forall>k\<in>set keys. startswith k (youtube_id @ ''/'')"
    unfolding keys by (blast dest: bucket_list_startswith)
  have c1: "r = (if \<forall>k\<in>set keys. \<exists>g2. re_legacy_video_key_name k = Some (youtube_id, g2)
              then Inr () else Inl AssertionError)"
    unfolding r by (rule copy_legacy_loop_result[OF pre1])
  have c2: "\<forall>x. map_of (converted_bucket m) x \<noteq> None \<longrightarrow> map_of (converted_bucket m') x \<noteq> None"
    unfolding m' using copy_legacy_loop_keeps[of m _ youtube_id keys] by simp
  have c3: "\<forall>x. startswith x (youtube_id @ ''/'') \<longrightarrow>
                map_of (converted_bucket m') x = map_of (converted_bucket m) x"
  proof (intro allI impI)
    fix x assume x: "startswith x (youtube_id @ ''/'')"
    have "\<forall>k\<in>set keys. \<forall>g2. re_legacy_video_key_name k = Some (youtube_id, g2) \<longrightarrow>
            x \<noteq> youtube_id @ ''.mp4/'' @ g2"
      using x new_name_outside_prefix[of youtube_id] by auto
    from copy_legacy_loop_untouched[OF this]
    show "map_of (converted_bucket m') x = map_of (converted_bucket m) x"
      unfolding m' .
  qed
  have c4: "\<exists>new. migration_log m' = migration_log m @ new \<and>
               list_all2 (\<lambda>k l. \<exists>g2. re_legacy_video_key_name k = Some (youtube_id, g2) \<and>
                                   l = Info_copying k (youtube_id @ ''.mp4/'' @ g2)) keys new"
    if "r = Inr ()"
    using copy_legacy_loop_log[OF pre1, of youtube_id] that unfolding r m' by blast
  have c5: "\<forall>k\<in>set keys. \<exists>g2 k'.
                re_legacy_video_key_name k = Some (youtube_id, g2) \<and>
                (newline \<notin> set k \<longrightarrow> g2 = drop (length youtube_id + 1) k) \<and>
                k' \<in> set keys \<and> re_legacy_video_key_name k' = Some (youtube_id, g2) \<and>
                map_of (converted_bucket m') (youtube_id @ ''.mp4/'' @ g2)
                  = map_of (converted_bucket m) k'"
    if ok: "r = Inr ()"
  proof
    fix k assume k: "k \<in> set keys"
    from copy_legacy_loop_copies[OF pre1 pre2, of ] ok k
    obtain g2 k' where a: "re_legacy_video_key_name k = Some (youtube_id, g2)" "k' \<in> set keys"
      "re_legacy_video_key_name k' = Some (youtube_id, g2)"
      "map_of (converted_bucket m') (youtube_id @ ''.mp4/'' @ g2) = map_of (converted_bucket m) k'"
      unfolding r m' by blast
    have "newline \<notin> set k \<longrightarrow> g2 = drop (length youtube_id + 1) k"
      using re_legacy_group2_is_remainder[OF a(1)] by blast
    with a show "\<exists>g2 k'.
                re_legacy_video_key_name k = Some (youtube_id, g2) \<and>
                (newline \<notin> set k \<longrightarrow> g2 = drop (length youtube_id + 1) k) \<and>
                k' \<in> set keys \<and> re_legacy_video_key_name k' = Some (youtube_id, g2) \<and>
                map_of (converted_bucket m') (youtube_id @ ''.mp4/'' @ g2)
                  = map_of (converted_bucket m) k'"
      by blast
  qed
  have c6: "\<forall>k\<in>set keys.
                  map_of (converted_bucket m') (youtube_id @ ''.mp4/'' @ drop (length youtube_id + 1) k)
                    = map_of (converted_bucket m) k"
    if ok: "r = Inr ()" and nl: "\<forall>k\<in>set keys. newline \<notin> set k"
  proof
    fix k assume k: "k \<in> set keys"
    from c5[OF ok] k obtain g2 k' where a: "re_legacy_video_key_name k = Some (youtube_id, g2)"
      "k' \<in> set keys" "re_legacy_video_key_name k' = Some (youtube_id, g2)"
      "map_of (converted_bucket m') (youtube_id @ ''.mp4/'' @ g2) = map_of (converted_bucket m) k'"
      by blast
    have "k = youtube_id @ ''/'' @ g2" using re_legacy_key_rebuilt[OF a(1)] nl k by blast
    moreover have "k' = youtube_id @ ''/'' @ g2" using re_legacy_key_rebuilt[OF a(3)] nl a(2) by blast
    moreover have "g2 = drop (length youtube_id + 1) k"
      using re_legacy_group2_is_remainder[OF a(1)] nl k by blast
    ultimately show "map_of (converted_bucket m') (youtube_id @ ''.mp4/'' @ drop (length youtube_id + 1) k)
                    = map_of (converted_bucket m) k"
      using a(4) by simp
  qed
  show ?thesis using c1 c2 c3 c4 c5 c6 by blast
qed


theorem copy_legacy_content_to_new_location_copies_witness:
  "copy_legacy_content_to_new_location ''v''
     \<lparr>converted_bucket = [(''v/a'', \<lparr>contents = ''A'', acl = ''public''\<rparr>),
                          (''w.mp4/x'', \<lparr>contents = ''X'', acl = ''private''\<rparr>)],
      migration_log = []\<rparr> =
     (Inr (),
      \<lparr>converted_bucket = [(''v/a'', \<lparr>contents = ''A'', acl = ''public''\<rparr>),
                           (''w.mp4/x'', \<lparr>contents = ''X'', acl = ''private''\<rparr>),
                           (''v.mp4/a'', \<lparr>contents = ''A'', acl = ''public''\<rparr>)],
       migration_log = [Info_copying ''v/a'' ''v.mp4/a'']\<rparr>) \<and>
   [''v/a''] = bucket_list (''v'' @ ''/'')
                 [(''v/a'', \<lparr>contents = ''A'', acl = ''public''\<rparr>),
                  (''w.mp4/x'', \<lparr>contents = ''X'', acl = ''private''\<rparr>)] \<and>
   re_legacy_video_key_name ''v/a'' = Some (''v'', ''a'') \<and>
   map_of [(''v/a'', \<lparr>contents = ''A'', acl = ''public''\<rparr>),
           (''w.mp4/x'', \<lparr>contents = ''X'', acl = ''private''\<rparr>),
           (''v.mp4/a'', \<lparr>contents = ''A'', acl = ''public''\<rparr>)] (''v'' @ ''.mp4/'' @ ''a'')
     = Some \<lparr>contents = ''A'', acl = ''public''\<rparr>"
proof -
  have m: "re_legacy_video_key_name ''v/a'' = Some (''v'', ''a'')"
    by (simp add: re_legacy_video_key_name_def is_id_char_def is_word_char_def newline_def)
  have keys: "[''v/a''] = bucket_list (''v'' @ ''/'')
                 (converted_bucket \<lparr>converted_bucket = [(''v/a'', \<lparr>contents = ''A'', acl = ''public''\<rparr>),
                          (''w.mp4/x'', \<lparr>contents = ''X'', acl = ''private''\<rparr>)],
      migration_log = []\<rparr>)"
    by (simp add: bucket_list_def startswith_def)
  have run: "copy_legacy_content_to_new_location ''v''
     \<lparr>converted_bucket = [(''v/a'', \<lparr>contents = ''A'', acl = ''public''\<rparr>),
                          (''w.mp4/x'', \<lparr>contents = ''X'', acl = ''private''\<rparr>)],
      migration_log = []\<rparr> =
     (Inr (),
      \<lparr>converted_bucket = [(''v/a'', \<lparr>contents = ''A'', acl = ''public''\<rparr>),
                           (''w.mp4/x'', \<lparr>contents = ''X'', acl = ''private''\<rparr>),
                           (''v.mp4/a'', \<lparr>contents = ''A'', acl = ''public''\<rparr>)],
       migration_log = [Info_copying ''v/a'' ''v.mp4/a'']\<rparr>)"
    by (simp add: copy_legacy_content_to_new_location_def bucket_list_def startswith_def m
          key_copy_def Let_def)
  from copy_legacy_content_to_new_location_copies[OF run keys] m run keys
  show ?thesis by simp
qed


section \<open>Properties of the verification\<close>

lemma verify_loop_bound:
  "head_calls (snd (verify_loop env y f c w)) \<le> head_calls w + (c_retries_allowed - c)"
proof (induction env y f c w rule: verify_loop.induct)
  case (1 env y f c w)
  show ?case
  proof (cases "c < c_retries_allowed")
    case False
    then show ?thesis by (simp add: verify_loop.simps)
  next
    case True
    show ?thesis
    proof (cases "urlopen env (head_calls w)")
      case (Response code)
      then show ?thesis using True by (simp add: verify_loop.simps emit_def)
    next
      case (HeadRaises s)
      then show ?thesis using True by (simp add: verify_loop.simps emit_def)
    next
      case (HTTPError e)
      let ?w1 = "emit (Urlopen_head (archive_url y f)) (w\<lparr>head_calls := Suc (head_calls w)\<rparr>)"
      let ?w2 = "if c + 1 < c_retries_allowed
                 then logger (Error_verification_retry (c + 1)) ?w1
                 else logger (Error_verification_final e) ?w1"
      let ?w3 = "emit (Sleep 10) ?w2"
      have step: "verify_loop env y f c w = verify_loop env y f (c + 1) ?w3"
        using True HTTPError by (subst verify_loop.simps) (simp add: Let_def)
      have hc: "head_calls ?w3 = Suc (head_calls w)"
        by (simp add: emit_def logger_def)
      from "1.IH"[OF True refl HTTPError refl refl refl]
      have "head_calls (snd (verify_loop env y f (c + 1) ?w3))
              \<le> head_calls ?w3 + (c_retries_allowed - (c + 1))" .
      then show ?thesis unfolding step hc using True by simp
    qed
  qed
qed

lemma verify_loop_no_raise:
  assumes "\<forall>k<c_retries_allowed - c. \<forall>s. urlopen env (head_calls w + k) \<noteq> HeadRaises s"
  shows "\<exists>b. fst (verify_loop env y f c w) = Inr b"
  using assms
proof (induction env y f c w rule: verify_loop.induct)
  case (1 env y f c w)
  show ?case
  proof (cases "c < c_retries_allowed")
    case False
    then have "fst (verify_loop env y f c w) = Inr False" by (simp add: verify_loop.simps)
    then show ?thesis by blast
  next
    case True
    show ?thesis
    proof (cases "urlopen env (head_calls w)")
      case (Response code)
      then have "fst (verify_loop env y f c w) = Inr (code = 200)"
        using True by (simp add: verify_loop.simps emit_def)
      then show ?thesis by blast
    next
      case (HeadRaises s)
      moreover have "urlopen env (head_calls w + 0) \<noteq> HeadRaises s"
        using "1.prems" True by (metis zero_less_diff)
      ultimately show ?thesis by simp
    next
      case (HTTPError e)
      let ?w1 = "emit (Urlopen_head (archive_url y f)) (w\<lparr>head_calls := Suc (head_calls w)\<rparr>)"
      let ?w2 = "if c + 1 < c_retries_allowed
                 then logger (Error_verification_retry (c + 1)) ?w1
                 else logger (Error_verification_final e) ?w1"
      let ?w3 = "emit (Sleep 10) ?w2"
      have step: "verify_loop env y f c w = verify_loop env y f (c + 1) ?w3"
        using True HTTPError by (subst verify_loop.simps) (simp add: Let_def)
      have hc: "head_calls ?w3 = Suc (head_calls w)"
        by (simp add: emit_def logger_def)
      have pre: "\<forall>k<c_retries_allowed - (c + 1). \<forall>s. urlopen env (head_calls ?w3 + k) \<noteq> HeadRaises s"
      proof (intro allI impI)
        fix k s assume "k < c_retries_allowed - (c + 1)"
        then have "Suc k < c_retries_allowed - c" by simp
        with "1.prems" have "urlopen env (head_calls w + Suc k) \<noteq> HeadRaises s" by blast
        then show "urlopen env (head_calls ?w3 + k) \<noteq> HeadRaises s" unfolding hc by simp
      qed
      from "1.IH"[OF True refl HTTPError refl refl refl pre]
      show ?thesis unfolding step .
    qed
  qed
qed

lemma verify_five_errors:
  assumes "\<forall>k<5. urlopen env (head_calls w + k) = HTTPError (e k)"
  shows "verify_archive_upload env y f w =
           (Inr False,
            w\<lparr>head_calls := head_calls w + 5,
              trace := trace w @
                [Urlopen_head (archive_url y f), Log (Error_verification_retry 1), Sleep 10,
                 Urlopen_head (archive_url y f), Log (Error_verification_retry 2), Sleep 10,
                 Urlopen_head (archive_url y f), Log (Error_verification_retry 3), Sleep 10,
                 Urlopen_head (archive_url y f), Log (Error_verification_retry 4), Sleep 10,
                 Urlopen_head (archive_url y f), Log (Error_verification_final (e 4)), Sleep 10]\<rparr>)"
proof -
  have h: "urlopen env (head_calls w) = HTTPError (e 0)"
    "urlopen env (Suc (head_calls w)) = HTTPError (e 1)"
    "urlopen env (Suc (Suc (head_calls w))) = HTTPError (e 2)"
    "urlopen env (Suc (Suc (Suc (head_calls w)))) = HTTPError (e 3)"
    "urlopen env (Suc (Suc (Suc (Suc (head_calls w))))) = HTTPError (e 4)"
    using assms[rule_format, of 0] assms[rule_format, of 1] assms[rule_format, of 2]
      assms[rule_format, of 3] assms[rule_format, of 4]
    by (simp_all add: eval_nat_numeral)
  show ?thesis
    by (simp add: verify_archive_upload_def verify_loop.simps c_retries_allowed_def
          emit_def logger_def h Let_def)
qed

lemma verify_fifth_response:
  assumes "\<forall>k<4. urlopen env (head_calls w + k) = HTTPError (e k)"
    and "urlopen env (head_calls w + 4) = Response code"
  shows "verify_archive_upload env y f w =
           (Inr (code = 200),
            w\<lparr>head_calls := head_calls w + 5,
              trace := trace w @
                [Urlopen_head (archive_url y f), Log (Error_verification_retry 1), Sleep 10,
                 Urlopen_head (archive_url y f), Log (Error_verification_retry 2), Sleep 10,
                 Urlopen_head (archive_url y f), Log (Error_verification_retry 3), Sleep 10,
                 Urlopen_head (archive_url y f), Log (Error_verification_retry 4), Sleep 10,
                 Urlopen_head (archive_url y f)]\<rparr>)"
proof -
  have h: "urlopen env (head_calls w) = HTTPError (e 0)"
    "urlopen env (Suc (head_calls w)) = HTTPError (e 1)"
    "urlopen env (Suc (Suc (head_calls w))) = HTTPError (e 2)"
    "urlopen env (Suc (Suc (Suc (head_calls w)))) = HTTPError (e 3)"
    "urlopen env (Suc (Suc (Suc (Suc (head_calls w))))) = Response code"
    using assms(1)[rule_format, of 0] assms(1)[rule_format, of 1] assms(1)[rule_format, of 2]
      assms(1)[rule_format, of 3] assms(2)
    by (simp_all add: eval_nat_numeral)
  show ?thesis
    by (simp add: verify_archive_upload_def verify_loop.simps c_retries_allowed_def
          emit_def logger_def h Let_def)
qed

text \<open>
  Claim C2. \<^verbatim>\<open>verify_archive_upload\<close> makes at most five HEAD requests, whatever they
  answer, and when none of them raises anything but \<^verbatim>\<open>HTTPError\<close> it returns a
  boolean. When the first five requests raise \<^verbatim>\<open>HTTPError\<close> it returns false after
  exactly five requests, each followed by a sleep of 10 seconds. When the first four
  raise \<^verbatim>\<open>HTTPError\<close> and the fifth returns a response, the result is whether the
  status code is 200, and one sleep of 10 seconds stands between consecutive requests.
\<close>

theorem verify_archive_upload_retries:
  "head_calls (snd (verify_archive_upload env youtube_id filename w)) \<le> head_calls w + 5 \<and>
   ((\<forall>k<5. \<forall>s. urlopen env (head_calls w + k) \<noteq> HeadRaises s) \<longrightarrow>
      (\<exists>b. fst (verify_archive_upload env youtube_id filename w) = Inr b)) \<and>
   ((\<forall>k<5. urlopen env (head_calls w + k) = HTTPError (e k)) \<longrightarrow>
      verify_archive_upload env youtube_id filename w =
        (Inr False,
         w\<lparr>head_calls := head_calls w + 5,
           trace := trace w @
             [Urlopen_head (archive_url youtube_id filename), Log (Error_verification_retry 1), Sleep 10,
              Urlopen_head (archive_url youtube_id filename), Log (Error_verification_retry 2), Sleep 10,
              Urlopen_head (archive_url youtube_id filename), Log (Error_verification_retry 3), Sleep 10,
              Urlopen_head (archive_url youtube_id filename), Log (Error_verification_retry 4), Sleep 10,
              Urlopen_head (archive_url youtube_id filename), Log (Error_verification_final (e 4)),
              Sleep 10]\<rparr>)) \<and>
   ((\<forall>k<4. urlopen env (head_calls w + k) = HTTPError (e k)) \<and>
    urlopen env (head_calls w + 4) = Response code \<longrightarrow>
      verify_archive_upload env youtube_id filename w =
        (Inr (code = 200),
         w\<lparr>head_calls := head_calls w + 5,
           trace := trace w @
             [Urlopen_head (archive_url youtube_id filename), Log (Error_verification_retry 1), Sleep 10,
              Urlopen_head (archive_url youtube_id filename), Log (Error_verification_retry 2), Sleep 10,
              Urlopen_head (archive_url youtube_id filename), Log (Error_verification_retry 3), Sleep 10,
              Urlopen_head (archive_url youtube_id filename), Log (Error_verification_retry 4), Sleep 10,
              Urlopen_head (archive_url youtube_id filename)]\<rparr>))"
proof (intro conjI impI)
  show "head_calls (snd (verify_archive_upload env youtube_id filename w)) \<le> head_calls w + 5"
    using verify_loop_bound[of env youtube_id filename 0 w]
    by (simp add: verify_archive_upload_def c_retries_allowed_def)
next
  assume "\<forall>k<5. \<forall>s. urlopen env (head_calls w + k) \<noteq> HeadRaises s"
  then show "\<exists>b. fst (verify_archive_upload env youtube_id filename w) = Inr b"
    using verify_loop_no_raise[of 0 env w youtube_id filename]
    by (simp add: verify_archive_upload_def c_retries_allowed_def)
next
  assume "\<forall>k<5. urlopen env (head_calls w + k) = HTTPError (e k)"
  then show "verify_archive_upload env youtube_id filename w =
        (Inr False,
         w\<lparr>head_calls := head_calls w + 5,
           trace := trace w @
             [Urlopen_head (archive_url youtube_id filename), Log (Error_verification_retry 1), Sleep 10,
              Urlopen_head (archive_url youtube_id filename), Log (Error_verification_retry 2), Sleep 10,
              Urlopen_head (archive_url youtube_id filename), Log (Error_verification_retry 3), Sleep 10,
              Urlopen_head (archive_url youtube_id filename), Log (Error_verification_retry 4), Sleep 10,
              Urlopen_head (archive_url youtube_id filename), Log (Error_verification_final (e 4)),
              Sleep 10]\<rparr>)"
    by (rule verify_five_errors)
next
  assume "(\<forall>k<4. urlopen env (head_calls w + k) = HTTPError (e k)) \<and>
    urlopen env (head_calls w + 4) = Response code"
  then show "verify_archive_upload env youtube_id filename w =
        (Inr (code = 200),
         w\<lparr>head_calls := head_calls w + 5,
           trace := trace w @
             [Urlopen_head (archive_url youtube_id filename), Log (Error_verification_retry 1), Sleep 10,
              Urlopen_head (archive_url youtube_id filename), Log (Error_verification_retry 2), Sleep 10,
              Urlopen_head (archive_url youtube_id filename), Log (Error_verification_retry 3), Sleep 10,
              Urlopen_head (archive_url youtube_id filename), Log (Error_verification_retry 4), Sleep 10,
              Urlopen_head (archive_url youtube_id filename)]\<rparr>)"
    using verify_fifth_response[of env w e code youtube_id filename] by blast
qed

theorem verify_archive_upload_retries_witness:
  "fst (verify_archive_upload (example_env [] (\<lambda>n. PutOk) (\<lambda>n. HTTPError 503)) ''v'' ''a'' world0)
     = Inr False \<and>
   head_calls (snd (verify_archive_upload (example_env [] (\<lambda>n. PutOk) (\<lambda>n. HTTPError 503))
                      ''v'' ''a'' world0)) = 5 \<and>
   fst (verify_archive_upload
          (example_env [] (\<lambda>n. PutOk) (\<lambda>n. if n < 4 then HTTPError 503 else Response 200))
          ''v'' ''a'' world0) = Inr True \<and>
   head_calls (snd (verify_archive_upload
          (example_env [] (\<lambda>n. PutOk) (\<lambda>n. if n < 4 then HTTPError 503 else Response 200))
          ''v'' ''a'' world0)) = 5"
proof -
  have a: "\<forall>k<5. urlopen (example_env [] (\<lambda>n. PutOk) (\<lambda>n. HTTPError 503)) (head_calls world0 + k)
             = HTTPError ((\<lambda>k. 503) k)"
    by simp
  have b: "(\<forall>k<4. urlopen (example_env [] (\<lambda>n. PutOk) (\<lambda>n. if n < 4 then HTTPError 503 else Response 200))
                    (head_calls world0 + k) = HTTPError ((\<lambda>k. 503) k)) \<and>
           urlopen (example_env [] (\<lambda>n. PutOk) (\<lambda>n. if n < 4 then HTTPError 503 else Response 200))
                    (head_calls world0 + 4) = Response 200"
    by simp
  from verify_archive_upload_retries
         [of "example_env [] (\<lambda>n. PutOk) (\<lambda>n. HTTPError 503)" "''v''" "''a''" world0 "\<lambda>k. 503" 200]
       verify_archive_upload_retries
         [of "example_env [] (\<lambda>n. PutOk) (\<lambda>n. if n < 4 then HTTPError 503 else Response 200)"
             "''v''" "''a''" world0 "\<lambda>k. 503" 200]
       a b
  show ?thesis by simp
qed


section \<open>Properties of the transfer\<close>


lemma set_contents_attempts_exhausted:
  assumes "\<forall>k<length atts. \<exists>s rs. set_contents_from_file env (put_calls w + k) = BotoServerError s rs"
  shows "\<exists>new. set_contents_attempts env b d t h atts w =
           (Inl GaveUpPublish, w\<lparr>put_calls := put_calls w + length atts, trace := trace w @ new\<rparr>) \<and>
         [a. Set_contents b' d' a \<leftarrow> new] = atts"
  using assms
proof (induction atts arbitrary: w)
  case Nil
  have "set_contents_attempts env b d t h [] w =
          (Inl GaveUpPublish, w\<lparr>put_calls := put_calls w + length ([]::nat list), trace := trace w @ []\<rparr>)"
    by simp
  then show ?case by (intro exI[of _ "[]"]) simp
next
  case (Cons a atts)
  from Cons.prems obtain s rs where o: "set_contents_from_file env (put_calls w) = BotoServerError s rs"
    by fastforce
  let ?w1 = "logger (Error_upload_attempt s rs a)
               (emit (Set_contents b d a) (w\<lparr>put_calls := Suc (put_calls w)\<rparr>))"
  have step: "set_contents_attempts env b d t h (a # atts) w = set_contents_attempts env b d t h atts ?w1"
    using o by (simp add: Let_def)
  have pc: "put_calls ?w1 = Suc (put_calls w)" by (simp add: emit_def logger_def)
  have pre: "\<forall>k<length atts. \<exists>s rs. set_contents_from_file env (put_calls ?w1 + k) = BotoServerError s rs"
  proof (intro allI impI)
    fix k assume "k < length atts"
    then have "Suc k < length (a # atts)" by simp
    with Cons.prems have "\<exists>s rs. set_contents_from_file env (put_calls w + Suc k) = BotoServerError s rs"
      by blast
    then show "\<exists>s rs. set_contents_from_file env (put_calls ?w1 + k) = BotoServerError s rs"
      unfolding pc by simp
  qed
  from Cons.IH[OF pre] obtain new where
    new: "set_contents_attempts env b d t h atts ?w1 =
           (Inl GaveUpPublish, ?w1\<lparr>put_calls := put_calls ?w1 + length atts, trace := trace ?w1 @ new\<rparr>)"
      "[a. Set_contents b' d' a \<leftarrow> new] = atts"
    by blast
  let ?new = "[Set_contents b d a, Log (Error_upload_attempt s rs a)] @ new"
  have "set_contents_attempts env b d t h (a # atts) w =
           (Inl GaveUpPublish, w\<lparr>put_calls := put_calls w + length (a # atts), trace := trace w @ ?new\<rparr>)"
    unfolding step new(1) by (simp add: emit_def logger_def)
  moreover have "[a. Set_contents b' d' a \<leftarrow> ?new] = a # atts"
    using new(2) by simp
  ultimately show ?case by blast
qed

lemma set_contents_attempts_succeeds:
  assumes "n < length atts"
    and "\<forall>k<n. \<exists>s rs. set_contents_from_file env (put_calls w + k) = BotoServerError s rs"
    and "set_contents_from_file env (put_calls w + n) = PutOk"
  shows "\<exists>new. set_contents_attempts env b d t h atts w =
           (Inr (), w\<lparr>put_calls := put_calls w + n + 1, trace := trace w @ new,
                       archive := (archive w)((b, d) \<mapsto> (t, h))\<rparr>) \<and>
         [a. Set_contents b' d' a \<leftarrow> new] = take (n + 1) atts"
  using assms
proof (induction atts arbitrary: w n)
  case Nil
  then show ?case by simp
next
  case (Cons a atts)
  show ?case
  proof (cases n)
    case 0
    then have o: "set_contents_from_file env (put_calls w) = PutOk" using Cons.prems(3) by simp
    have "set_contents_attempts env b d t h (a # atts) w =
           (Inr (), w\<lparr>put_calls := put_calls w + n + 1, trace := trace w @ [Set_contents b d a],
                       archive := (archive w)((b, d) \<mapsto> (t, h))\<rparr>)"
      using o 0 by (simp add: Let_def emit_def)
    moreover have "[a. Set_contents b' d' a \<leftarrow> [Set_contents b d a]] = take (n + 1) (a # atts)"
      using 0 by simp
    ultimately show ?thesis by blast
  next
    case (Suc n')
    from Cons.prems(2) Suc obtain s rs where
      o: "set_contents_from_file env (put_calls w) = BotoServerError s rs"
      by fastforce
    let ?w1 = "logger (Error_upload_attempt s rs a)
               (emit (Set_contents b d a) (w\<lparr>put_calls := Suc (put_calls w)\<rparr>))"
    have step: "set_contents_attempts env b d t h (a # atts) w = set_contents_attempts env b d t h atts ?w1"
      using o by (simp add: Let_def)
    have pc: "put_calls ?w1 = Suc (put_calls w)" by (simp add: emit_def logger_def)
    have p1: "n' < length atts" using Cons.prems(1) Suc by simp
    have p2: "\<forall>k<n'. \<exists>s rs. set_contents_from_file env (put_calls ?w1 + k) = BotoServerError s rs"
    proof (intro allI impI)
      fix k assume "k < n'"
      then have "Suc k < n" using Suc by simp
      with Cons.prems(2) have "\<exists>s rs. set_contents_from_file env (put_calls w + Suc k) = BotoServerError s rs"
        by blast
      then show "\<exists>s rs. set_contents_from_file env (put_calls ?w1 + k) = BotoServerError s rs"
        unfolding pc by simp
    qed
    have p3: "set_contents_from_file env (put_calls ?w1 + n') = PutOk"
      using Cons.prems(3) Suc unfolding pc by simp
    from Cons.IH[OF p1 p2 p3] obtain new where
      new: "set_contents_attempts env b d t h atts ?w1 =
           (Inr (), ?w1\<lparr>put_calls := put_calls ?w1 + n' + 1, trace := trace ?w1 @ new,
                       archive := (archive ?w1)((b, d) \<mapsto> (t, h))\<rparr>)"
        "[a. Set_contents b' d' a \<leftarrow> new] = take (n' + 1) atts"
      by blast
    let ?new = "[Set_contents b d a, Log (Error_upload_attempt s rs a)] @ new"
    have "set_contents_attempts env b d t h (a # atts) w =
           (Inr (), w\<lparr>put_calls := put_calls w + n + 1, trace := trace w @ ?new,
                       archive := (archive w)((b, d) \<mapsto> (t, h))\<rparr>)"
      unfolding step new(1) using Suc by (simp add: emit_def logger_def)
    moreover have "[a. Set_contents b' d' a \<leftarrow> ?new] = take (n + 1) (a # atts)"
      using new(2) Suc by simp
    ultimately show ?thesis by blast
  qed
qed


lemma upload_key_unfold:
  assumes "destination_name_of y f (name key) = Inr d" and "get_file env (name key) = None"
  shows "upload_key env y b h f key up w =
           (case set_contents_attempts env b d (contents key) h [0..<10]
                   (emit (Get_file (name key)) (logger (Debug_copying_file d) w)) of
              (Inl e, w3) \<Rightarrow> (Inl e, w3)
            | (Inr u, w3) \<Rightarrow> (Inr (up @ [d]), w3))"
  using assms by (simp add: upload_key_def Let_def)

lemma example_matches:
  "re_video_key_name ''v.m/a'' = Some (''v'', ''m'', ''v.m/'')"
  "re_video_key_name ''v.m/b'' = Some (''v'', ''m'', ''v.m/'')"
  by (simp_all add: re_video_key_name_def is_id_char_def is_word_char_def)

lemma example_destination_names:
  "destination_name_of ''v'' ''m'' ''v.m/a'' = Inr ''a''"
  "destination_name_of ''v'' ''m'' ''v.m/b'' = Inr ''b''"
  by (simp_all add: destination_name_of_def example_matches startswith_def)

lemma example_discovery:
  "source_keys_loop (example_env ks puts heads) ''v'' (key_list ''v'' [example_key ''v.m/a'' 0])
     (\<lambda>format. []) world0 =
     (Next ((\<lambda>format. [])(''m'' := [example_key ''v.m/a'' 0])), world0\<lparr>clock_reads := 1\<rparr>)"
  by (simp add: key_list_def startswith_def example_matches is_ready_def timedelta_hours_def)

text \<open>
  Claim C1. The transfer of one object whose destination name is well defined and whose
  fetch succeeds. When the first nine upload attempts raise \<^verbatim>\<open>BotoServerError\<close> and
  the tenth succeeds, the object is reported as uploaded (its name joins
  \<^verbatim>\<open>uploaded_filenames\<close>), after exactly the ten attempts 0 to 9, and the archive holds
  it. When the first ten attempts raise \<^verbatim>\<open>BotoServerError\<close>, the transfer raises the
  exception of line 201 after exactly the ten attempts 0 to 9, with no further attempt
  and the archive unchanged; the exception ends the loop over the keys and the loop over
  the formats, so no other object of the video is attempted.
\<close>

theorem upload_key_retries:
  assumes dn: "destination_name_of youtube_id format (name key) = Inr destination_name"
    and gf: "get_file env (name key) = None"
  shows
   "((\<forall>k<9. \<exists>s rs. set_contents_from_file env (put_calls w + k) = BotoServerError s rs) \<and>
     set_contents_from_file env (put_calls w + 9) = PutOk \<longrightarrow>
       (\<exists>w'. upload_key env youtube_id dest_bucket hdrs format key uploaded_filenames w =
                (Inr (uploaded_filenames @ [destination_name]), w') \<and>
             put_calls w' = put_calls w + 10 \<and>
             archive w' = (archive w)((dest_bucket, destination_name) \<mapsto> (contents key, hdrs)) \<and>
             [a. Set_contents b d a \<leftarrow> drop (length (trace w)) (trace w')] = [0..<10])) \<and>
    ((\<forall>k<10. \<exists>s rs. set_contents_from_file env (put_calls w + k) = BotoServerError s rs) \<longrightarrow>
       (\<exists>w'. upload_key env youtube_id dest_bucket hdrs format key uploaded_filenames w =
                (Inl GaveUpPublish, w') \<and>
             put_calls w' = put_calls w + 10 \<and>
             archive w' = archive w \<and>
             [a. Set_contents b d a \<leftarrow> drop (length (trace w)) (trace w')] = [0..<10] \<and>
             upload_keys_loop env youtube_id dest_bucket hdrs format (key # keys)
               uploaded_filenames w = (Inl GaveUpPublish, w') \<and>
             (source_keys_for_format format = key # keys \<longrightarrow>
                upload_formats_loop env youtube_id dest_bucket hdrs (format # formats)
                  source_keys_for_format uploaded_filenames w = (Inl GaveUpPublish, w'))))"
proof (intro conjI impI)
  let ?w2 = "emit (Get_file (name key)) (logger (Debug_copying_file destination_name) w)"
  have pc: "put_calls ?w2 = put_calls w" and ar: "archive ?w2 = archive w"
    and tr: "trace ?w2 = trace w @ [Log (Debug_copying_file destination_name), Get_file (name key)]"
    by (simp_all add: emit_def logger_def)
  {
    assume a: "(\<forall>k<9. \<exists>s rs. set_contents_from_file env (put_calls w + k) = BotoServerError s rs) \<and>
               set_contents_from_file env (put_calls w + 9) = PutOk"
    have n: "9 < length [0..<10]" by simp
    from a have p2: "\<forall>k<9. \<exists>s rs. set_contents_from_file env (put_calls ?w2 + k) = BotoServerError s rs"
      and p3: "set_contents_from_file env (put_calls ?w2 + 9) = PutOk"
      unfolding pc by blast+
    from set_contents_attempts_succeeds[OF n p2 p3, of dest_bucket destination_name "contents key" hdrs]
    obtain new where new:
      "set_contents_attempts env dest_bucket destination_name (contents key) hdrs [0..<10] ?w2 =
         (Inr (), ?w2\<lparr>put_calls := put_calls ?w2 + 9 + 1, trace := trace ?w2 @ new,
                      archive := (archive ?w2)((dest_bucket, destination_name) \<mapsto> (contents key, hdrs))\<rparr>)"
      "[a. Set_contents b' d' a \<leftarrow> new] = take (9 + 1) [0..<10]"
      by blast
    let ?w' = "?w2\<lparr>put_calls := put_calls ?w2 + 9 + 1, trace := trace ?w2 @ new,
                      archive := (archive ?w2)((dest_bucket, destination_name) \<mapsto> (contents key, hdrs))\<rparr>"
    have "upload_key env youtube_id dest_bucket hdrs format key uploaded_filenames w =
                (Inr (uploaded_filenames @ [destination_name]), ?w')"
      unfolding upload_key_unfold[OF dn gf] new(1) by simp
    moreover have "put_calls ?w' = put_calls w + 10" using pc by simp
    moreover have "archive ?w' = (archive w)((dest_bucket, destination_name) \<mapsto> (contents key, hdrs))"
      using ar by simp
    moreover have "[a. Set_contents b d a \<leftarrow> drop (length (trace w)) (trace ?w')] = [0..<10]"
      using new(2) tr by simp
    ultimately show "\<exists>w'. upload_key env youtube_id dest_bucket hdrs format key uploaded_filenames w =
                (Inr (uploaded_filenames @ [destination_name]), w') \<and>
             put_calls w' = put_calls w + 10 \<and>
             archive w' = (archive w)((dest_bucket, destination_name) \<mapsto> (contents key, hdrs)) \<and>
             [a. Set_contents b d a \<leftarrow> drop (length (trace w)) (trace w')] = [0..<10]"
      by blast
  }
  {
    assume a: "\<forall>k<10. \<exists>s rs. set_contents_from_file env (put_calls w + k) = BotoServerError s rs"
    then have p: "\<forall>k<length [0..<10]. \<exists>s rs.
                    set_contents_from_file env (put_calls ?w2 + k) = BotoServerError s rs"
      unfolding pc by simp
    from set_contents_attempts_exhausted[OF p, of dest_bucket destination_name "contents key" hdrs]
    obtain new where new:
      "set_contents_attempts env dest_bucket destination_name (contents key) hdrs [0..<10] ?w2 =
         (Inl GaveUpPublish, ?w2\<lparr>put_calls := put_calls ?w2 + length [0..<10], trace := trace ?w2 @ new\<rparr>)"
      "[a. Set_contents b' d' a \<leftarrow> new] = [0..<10]"
      by blast
    let ?w' = "?w2\<lparr>put_calls := put_calls ?w2 + length [0..<10], trace := trace ?w2 @ new\<rparr>"
    have uk: "upload_key env youtube_id dest_bucket hdrs format key uploaded_filenames w =
                (Inl GaveUpPublish, ?w')"
      unfolding upload_key_unfold[OF dn gf] new(1) by simp
    moreover have "put_calls ?w' = put_calls w + 10" using pc by simp
    moreover have "archive ?w' = archive w" using ar by simp
    moreover have "[a. Set_contents b d a \<leftarrow> drop (length (trace w)) (trace ?w')] = [0..<10]"
      using new(2) tr by simp
    moreover have ukl: "upload_keys_loop env youtube_id dest_bucket hdrs format (key # keys)
               uploaded_filenames w = (Inl GaveUpPublish, ?w')"
      using uk by simp
    moreover have "source_keys_for_format format = key # keys \<longrightarrow>
                upload_formats_loop env youtube_id dest_bucket hdrs (format # formats)
                  source_keys_for_format uploaded_filenames w = (Inl GaveUpPublish, ?w')"
      using ukl by simp
    ultimately show "\<exists>w'. upload_key env youtube_id dest_bucket hdrs format key uploaded_filenames w =
                (Inl GaveUpPublish, w') \<and>
             put_calls w' = put_calls w + 10 \<and>
             archive w' = archive w \<and>
             [a. Set_contents b d a \<leftarrow> drop (length (trace w)) (trace w')] = [0..<10] \<and>
             upload_keys_loop env youtube_id dest_bucket hdrs format (key # keys)
               uploaded_filenames w = (Inl GaveUpPublish, w') \<and>
             (source_keys_for_format format = key # keys \<longrightarrow>
                upload_formats_loop env youtube_id dest_bucket hdrs (format # formats)
                  source_keys_for_format uploaded_filenames w = (Inl GaveUpPublish, w'))"
      by blast
  }
qed

theorem upload_key_retries_witness:
  "fst (upload_key (example_env [] (\<lambda>n. if n < 9 then BotoServerError 503 ''Slow Down'' else PutOk)
                      (\<lambda>n. Response 200))
          ''v'' ''KA-converted-v'' [] ''m'' (example_key ''v.m/a'' 0) [] world0) = Inr [''a''] \<and>
   put_calls (snd (upload_key (example_env [] (\<lambda>n. if n < 9 then BotoServerError 503 ''Slow Down'' else PutOk)
                      (\<lambda>n. Response 200))
          ''v'' ''KA-converted-v'' [] ''m'' (example_key ''v.m/a'' 0) [] world0)) = 10 \<and>
   fst (upload_key (example_env [] (\<lambda>n. BotoServerError 503 ''Slow Down'') (\<lambda>n. Response 200))
          ''v'' ''KA-converted-v'' [] ''m'' (example_key ''v.m/a'' 0) [] world0) = Inl GaveUpPublish \<and>
   put_calls (snd (upload_key (example_env [] (\<lambda>n. BotoServerError 503 ''Slow Down'') (\<lambda>n. Response 200))
          ''v'' ''KA-converted-v'' [] ''m'' (example_key ''v.m/a'' 0) [] world0)) = 10 \<and>
   fst (upload_converted_to_archive
          (example_env [example_key ''v.m/a'' 0] (\<lambda>n. BotoServerError 503 ''Slow Down'')
             (\<lambda>n. Response 200))
          ''v'' [''m''] world0) = Inl GaveUpPublish \<and>
   put_calls (snd (upload_converted_to_archive
          (example_env [example_key ''v.m/a'' 0] (\<lambda>n. BotoServerError 503 ''Slow Down'')
             (\<lambda>n. Response 200))
          ''v'' [''m''] world0)) = 10"
proof -
  let ?ok = "example_env [] (\<lambda>n. if n < 9 then BotoServerError 503 ''Slow Down'' else PutOk)
               (\<lambda>n. Response 200)"
  let ?bad = "example_env [] (\<lambda>n. BotoServerError 503 ''Slow Down'') (\<lambda>n. Response 200)"
  let ?bad1 = "example_env [example_key ''v.m/a'' 0] (\<lambda>n. BotoServerError 503 ''Slow Down'')
                 (\<lambda>n. Response 200)"
  let ?key = "example_key ''v.m/a'' 0"
  let ?skf = "(\<lambda>format. [])(''m'' := [?key])"
  let ?hdrs = "archive_headers (\<lambda>s. s) (None, None)"
  have dn: "destination_name_of ''v'' ''m'' (name ?key) = Inr ''a''"
    by (simp add: example_destination_names)
  have g1: "get_file ?ok (name ?key) = None" and g2: "get_file ?bad (name ?key) = None"
    and g3: "get_file ?bad1 (name ?key) = None"
    by simp_all
  have h1: "(\<forall>k<9. \<exists>s rs. set_contents_from_file ?ok (put_calls world0 + k) = BotoServerError s rs) \<and>
            set_contents_from_file ?ok (put_calls world0 + 9) = PutOk"
    by simp
  have h2: "\<forall>k<10. \<exists>s rs. set_contents_from_file ?bad (put_calls world0 + k) = BotoServerError s rs"
    by simp
  have h3: "\<forall>k<10. \<exists>s rs. set_contents_from_file ?bad1 (put_calls (world0\<lparr>clock_reads := 1\<rparr>) + k)
              = BotoServerError s rs"
    by simp
  from upload_key_retries[OF dn g1, of world0 "''KA-converted-v''" "[]" "[]"] h1
  obtain w1 where w1: "upload_key ?ok ''v'' ''KA-converted-v'' [] ''m'' ?key [] world0 = (Inr ([] @ [''a'']), w1)"
    "put_calls w1 = put_calls world0 + 10"
    by blast
  from upload_key_retries[OF dn g2, of world0 "''KA-converted-v''" "[]" "[]"] h2
  obtain w2 where w2: "upload_key ?bad ''v'' ''KA-converted-v'' [] ''m'' ?key [] world0 = (Inl GaveUpPublish, w2)"
    "put_calls w2 = put_calls world0 + 10"
    by blast
  have skf: "?skf ''m'' = ?key # []" by simp
  from upload_key_retries[OF dn g3, of "world0\<lparr>clock_reads := 1\<rparr>" "''KA-converted-v''" ?hdrs "[]"
         "[]" ?skf "[]"] h3 skf
  obtain w3 where w3: "upload_formats_loop ?bad1 ''v'' ''KA-converted-v'' ?hdrs [''m''] ?skf []
                         (world0\<lparr>clock_reads := 1\<rparr>) = (Inl GaveUpPublish, w3)"
    "put_calls w3 = put_calls (world0\<lparr>clock_reads := 1\<rparr>) + 10"
    by blast
  have whole: "upload_converted_to_archive ?bad1 ''v'' [''m''] world0 = (Inl GaveUpPublish, w3)"
    using w3(1) by (simp add: upload_converted_to_archive_def example_discovery)
  show ?thesis
    using w1 w2 w3(2) whole by simp
qed


section \<open>Properties of the readiness gate in the transfer\<close>

lemma source_keys_loop_blocked:
  assumes "i < length (filter (\<lambda>key. re_video_key_name (name key) \<noteq> None) keys)"
    and "\<forall>j\<le>i. \<exists>format g0.
           re_video_key_name (name (filter (\<lambda>key. re_video_key_name (name key) \<noteq> None) keys ! j))
             = Some (y, format, g0)"
    and "\<forall>j<i. is_ready (utcnow env (clock_reads w + j))
                  (last_modified (filter (\<lambda>key. re_video_key_name (name key) \<noteq> None) keys ! j))"
    and "\<not> is_ready (utcnow env (clock_reads w + i))
                  (last_modified (filter (\<lambda>key. re_video_key_name (name key) \<noteq> None) keys ! i))"
  shows "\<exists>logs format g0.
           re_video_key_name (name (filter (\<lambda>key. re_video_key_name (name key) \<noteq> None) keys ! i))
             = Some (y, format, g0) \<and>
           source_keys_loop env y keys skf w =
             (Return False,
              w\<lparr>clock_reads := clock_reads w + i + 1,
                trace := trace w @ map Log (logs @
                  [Error_still_uploading format y
                     (last_modified (filter (\<lambda>key. re_video_key_name (name key) \<noteq> None) keys ! i))])\<rparr>)"
  using assms
proof (induction keys arbitrary: i w skf)
  case Nil
  then show ?case by simp
next
  case (Cons k keys)
  let ?P = "\<lambda>key. re_video_key_name (name key) \<noteq> None"
  show ?case
  proof (cases "re_video_key_name (name k)")
    case None
    then have flt: "filter ?P (k # keys) = filter ?P keys" by simp
    note prems = Cons.prems[unfolded flt]
    show ?thesis
    proof (cases "re_legacy_video_key_name (name k)")
      case (Some lm)
      have step: "source_keys_loop env y (k # keys) skf w = source_keys_loop env y keys skf w"
        using None Some by simp
      from Cons.IH[OF prems, of skf] show ?thesis unfolding flt step .
    next
      case None': None
      let ?w1 = "logger (Info_unrecognized_file (name k)) w"
      have step: "source_keys_loop env y (k # keys) skf w = source_keys_loop env y keys skf ?w1"
        using None None' by simp
      have cr: "clock_reads ?w1 = clock_reads w" and tr: "trace ?w1 = trace w @ [Log (Info_unrecognized_file (name k))]"
        by (simp_all add: logger_def emit_def)
      from Cons.IH[of i ?w1 skf] prems
      obtain logs format g0 where r:
        "re_video_key_name (name (filter ?P keys ! i)) = Some (y, format, g0)"
        "source_keys_loop env y keys skf ?w1 =
             (Return False,
              ?w1\<lparr>clock_reads := clock_reads ?w1 + i + 1,
                trace := trace ?w1 @ map Log (logs @
                  [Error_still_uploading format y (last_modified (filter ?P keys ! i))])\<rparr>)"
        unfolding cr by blast
      have "source_keys_loop env y (k # keys) skf w =
             (Return False,
              w\<lparr>clock_reads := clock_reads w + i + 1,
                trace := trace w @ map Log ((Info_unrecognized_file (name k) # logs) @
                  [Error_still_uploading format y (last_modified (filter ?P keys ! i))])\<rparr>)"
        unfolding step r(2) by (simp add: logger_def emit_def)
      with r(1) show ?thesis unfolding flt by blast
    qed
  next
    case (Some m)
    obtain g1 fm gp where "m = (g1, fm, gp)" by (cases m)
    with Some have flt: "filter ?P (k # keys) = k # filter ?P keys" by simp
    note prems = Cons.prems[unfolded flt]
    have "0 \<le> i" by simp
    from prems(2)[rule_format, OF this] obtain format g0 where
      m: "re_video_key_name (name k) = Some (y, format, g0)" by auto
    show ?thesis
    proof (cases i)
      case 0
      then have nr: "\<not> is_ready (utcnow env (clock_reads w)) (last_modified k)"
        using prems(4) by simp
      have "source_keys_loop env y (k # keys) skf w =
             (Return False,
              w\<lparr>clock_reads := clock_reads w + i + 1,
                trace := trace w @ map Log ([] @ [Error_still_uploading format y (last_modified k)])\<rparr>)"
        using m nr 0 by (simp add: Let_def logger_def emit_def)
      then show ?thesis unfolding flt using m 0 by (metis nth_Cons_0)
    next
      case (Suc i')
      have "0 < i" using Suc by simp
      from prems(3)[rule_format, OF this]
      have rd: "is_ready (utcnow env (clock_reads w)) (last_modified k)" by simp
      let ?w1 = "w\<lparr>clock_reads := Suc (clock_reads w)\<rparr>"
      let ?skf = "skf(format := skf format @ [k])"
      have step: "source_keys_loop env y (k # keys) skf w = source_keys_loop env y keys ?skf ?w1"
        using m rd by (simp add: Let_def)
      have p1: "i' < length (filter ?P keys)" using prems(1) Suc by simp
      have p2: "\<forall>j\<le>i'. \<exists>format g0. re_video_key_name (name (filter ?P keys ! j)) = Some (y, format, g0)"
      proof (intro allI impI)
        fix j assume "j \<le> i'"
        then have "Suc j \<le> i" using Suc by simp
        from prems(2)[rule_format, OF this]
        show "\<exists>format g0. re_video_key_name (name (filter ?P keys ! j)) = Some (y, format, g0)" by simp
      qed
      have p3: "\<forall>j<i'. is_ready (utcnow env (clock_reads ?w1 + j)) (last_modified (filter ?P keys ! j))"
      proof (intro allI impI)
        fix j assume "j < i'"
        then have "Suc j < i" using Suc by simp
        from prems(3)[rule_format, OF this]
        show "is_ready (utcnow env (clock_reads ?w1 + j)) (last_modified (filter ?P keys ! j))" by simp
      qed
      have p4: "\<not> is_ready (utcnow env (clock_reads ?w1 + i')) (last_modified (filter ?P keys ! i'))"
        using prems(4) Suc by simp
      from Cons.IH[OF p1 p2 p3 p4, of ?skf]
      obtain logs format' g0' where r:
        "re_video_key_name (name (filter ?P keys ! i')) = Some (y, format', g0')"
        "source_keys_loop env y keys ?skf ?w1 =
             (Return False,
              ?w1\<lparr>clock_reads := clock_reads ?w1 + i' + 1,
                trace := trace ?w1 @ map Log (logs @
                  [Error_still_uploading format' y (last_modified (filter ?P keys ! i'))])\<rparr>)"
        by blast
      have "source_keys_loop env y (k # keys) skf w =
             (Return False,
              w\<lparr>clock_reads := clock_reads w + i + 1,
                trace := trace w @ map Log (logs @
                  [Error_still_uploading format' y (last_modified (filter ?P keys ! i'))])\<rparr>)"
        unfolding step r(2) using Suc by simp
      with r(1) show ?thesis unfolding flt using Suc by auto
    qed
  qed
qed

text \<open>
  Claim C5. The discovered objects are the keys listed under the video id that match the
  current pattern, in listing order; the clock is read once for each. Take the first of
  them that is not ready when it is checked, the objects before it belonging to the video
  (group 1 is the video id, as line 138 asserts) and being ready. Then
  \<^verbatim>\<open>upload_converted_to_archive\<close> returns \<^verbatim>\<open>False\<close> and its last log line is the
  error of line 143 for that object; all it has done is log: no fetch, no upload
  attempt, no HEAD request, and the archive is as it was.
\<close>

theorem not_ready_blocks_transfer:
  assumes "ms = filter (\<lambda>key. re_video_key_name (name key) \<noteq> None)
                  (key_list youtube_id (converted_keys env))"
    and "i < length ms"
    and "\<forall>j\<le>i. \<exists>format g0. re_video_key_name (name (ms ! j)) = Some (youtube_id, format, g0)"
    and "\<forall>j<i. is_ready (utcnow env (clock_reads w + j)) (last_modified (ms ! j))"
    and "\<not> is_ready (utcnow env (clock_reads w + i)) (last_modified (ms ! i))"
  shows "\<exists>logs format g0 w'.
           re_video_key_name (name (ms ! i)) = Some (youtube_id, format, g0) \<and>
           upload_converted_to_archive env youtube_id formats_to_upload w = (Inr False, w') \<and>
           trace w' = trace w @ map Log (logs @
                        [Error_still_uploading format youtube_id (last_modified (ms ! i))]) \<and>
           archive w' = archive w \<and> put_calls w' = put_calls w \<and> head_calls w' = head_calls w"
proof -
  from source_keys_loop_blocked[OF assms(2-5)[unfolded assms(1)], of "\<lambda>format. []"]
  obtain logs format g0 where r:
    "re_video_key_name (name (ms ! i)) = Some (youtube_id, format, g0)"
    "source_keys_loop env youtube_id (key_list youtube_id (converted_keys env)) (\<lambda>format. []) w =
       (Return False,
        w\<lparr>clock_reads := clock_reads w + i + 1,
          trace := trace w @ map Log (logs @
            [Error_still_uploading format youtube_id (last_modified (ms ! i))])\<rparr>)"
    unfolding assms(1) by blast
  let ?w' = "w\<lparr>clock_reads := clock_reads w + i + 1,
          trace := trace w @ map Log (logs @
            [Error_still_uploading format youtube_id (last_modified (ms ! i))])\<rparr>"
  have "upload_converted_to_archive env youtube_id formats_to_upload w = (Inr False, ?w')"
    unfolding upload_converted_to_archive_def Let_def r(2) by simp
  moreover have "trace ?w' = trace w @ map Log (logs @
                        [Error_still_uploading format youtube_id (last_modified (ms ! i))])"
    and "archive ?w' = archive w" and "put_calls ?w' = put_calls w" and "head_calls ?w' = head_calls w"
    by simp_all
  ultimately show ?thesis using r(1) by blast
qed

theorem not_ready_blocks_transfer_witness:
  "fst (upload_converted_to_archive
          (example_env [example_key ''v.m/a'' 0, example_key ''v.m/b'' 6900000000]
             (\<lambda>n. PutOk) (\<lambda>n. Response 200))
          ''v'' [''m''] world0) = Inr False \<and>
   archive (snd (upload_converted_to_archive
          (example_env [example_key ''v.m/a'' 0, example_key ''v.m/b'' 6900000000]
             (\<lambda>n. PutOk) (\<lambda>n. Response 200))
          ''v'' [''m''] world0)) = Map.empty \<and>
   put_calls (snd (upload_converted_to_archive
          (example_env [example_key ''v.m/a'' 0, example_key ''v.m/b'' 6900000000]
             (\<lambda>n. PutOk) (\<lambda>n. Response 200))
          ''v'' [''m''] world0)) = 0 \<and>
   trace (snd (upload_converted_to_archive
          (example_env [example_key ''v.m/a'' 0, example_key ''v.m/b'' 6900000000]
             (\<lambda>n. PutOk) (\<lambda>n. Response 200))
          ''v'' [''m''] world0)) = [Log (Error_still_uploading ''m'' ''v'' 6900000000)]"
proof -
  let ?env = "example_env [example_key ''v.m/a'' 0, example_key ''v.m/b'' 6900000000]
             (\<lambda>n. PutOk) (\<lambda>n. Response 200)"
  let ?ms = "[example_key ''v.m/a'' 0, example_key ''v.m/b'' 6900000000]"
  have a1: "?ms = filter (\<lambda>key. re_video_key_name (name key) \<noteq> None)
                  (key_list ''v'' (converted_keys ?env))"
    by (simp add: key_list_def startswith_def example_matches)
  have a2: "1 < length ?ms" by simp
  have a3: "\<forall>j\<le>1. \<exists>format g0. re_video_key_name (name (?ms ! j)) = Some (''v'', format, g0)"
    by (simp add: le_Suc_eq example_matches all_conj_distrib)
  have a4: "\<forall>j<1. is_ready (utcnow ?env (clock_reads world0 + j)) (last_modified (?ms ! j))"
    by (simp add: is_ready_def timedelta_hours_def)
  have a5: "\<not> is_ready (utcnow ?env (clock_reads world0 + 1)) (last_modified (?ms ! 1))"
    by (simp add: is_ready_def timedelta_hours_def)
  from not_ready_blocks_transfer[OF a1 a2 a3 a4 a5, of "[''m'']"]
  obtain logs format g0 w' where r:
    "re_video_key_name (name (?ms ! 1)) = Some (''v'', format, g0)"
    "upload_converted_to_archive ?env ''v'' [''m''] world0 = (Inr False, w')"
    "trace w' = trace world0 @ map Log (logs @
                        [Error_still_uploading format ''v'' (last_modified (?ms ! 1))])"
    "archive w' = archive world0" "put_calls w' = put_calls world0"
    by blast
  have tr: "trace (snd (upload_converted_to_archive ?env ''v'' [''m''] world0))
              = [Log (Error_still_uploading ''m'' ''v'' 6900000000)]"
    by (simp add: upload_converted_to_archive_def key_list_def startswith_def example_matches
          is_ready_def timedelta_hours_def logger_def emit_def)
  show ?thesis using r tr by simp
qed


section \<open>Properties of the verification of the uploads\<close>





















end
